theory Spec2Isabelle
  imports Main
begin

section \<open>JavaScript values\<close>

text \<open>
  The values the transcoder handles are the values of JSON, plus JavaScript's
  \<open>undefined\<close> (what reading a missing property gives). An object is the list of its own
  properties in enumeration order, each key once. \<open>JObj fs\<close> is an object with the
  prototype of an object literal, which is also what \<open>JSON.parse\<close> gives; a key
  \<open>__proto__\<close> of a parsed object is an own property like any other.
  \<open>JObjProto fs p\<close> is an object with the own properties \<open>fs\<close> whose prototype has been
  set to \<open>p\<close>, an object, an array or \<open>null\<close>: what an assignment to the key
  \<open>__proto__\<close> makes. Numbers are the integers among JavaScript's numbers; a \<open>char\<close> is
  one byte of the UTF-8 form of the text.
\<close>

datatype json =
    JUndefined
  | JNull
  | JBool bool
  | JNum int
  | JStr string
  | JArr "json list"
  | JObj "(string \<times> json) list"
  | JObjProto "(string \<times> json) list" json

definition digit_char :: "nat \<Rightarrow> char" where
  "digit_char d = char_of (of_char (CHR ''0'') + d :: nat)"

fun string_of_nat :: "nat \<Rightarrow> string" where
  "string_of_nat n =
     (if n < 10 then [digit_char n] else string_of_nat (n div 10) @ [digit_char (n mod 10)])"

declare string_of_nat.simps [simp del]

definition string_of_int :: "int \<Rightarrow> string" where
  "string_of_int i = (if i < 0 then CHR ''-'' # string_of_nat (nat (- i)) else string_of_nat (nat i))"

text \<open>\<open>Array.prototype.join\<close> on strings.\<close>

fun join :: "string \<Rightarrow> string list \<Rightarrow> string" where
  "join sep [] = []"
| "join sep [x] = x"
| "join sep (x # y # ys) = x @ sep @ join sep (y # ys)"

text \<open>\<open>String.prototype.startsWith\<close> and \<open>String.prototype.includes\<close>.\<close>

fun startsWith :: "string \<Rightarrow> string \<Rightarrow> bool" where
  "startsWith s [] = True"
| "startsWith [] (p # ps) = False"
| "startsWith (c # cs) (p # ps) = (c = p \<and> startsWith cs ps)"

fun includes_str :: "string \<Rightarrow> string \<Rightarrow> bool" where
  "includes_str [] p = (p = [])"
| "includes_str (c # cs) p = (startsWith (c # cs) p \<or> includes_str cs p)"

subsection \<open>\<open>JSON.stringify\<close>\<close>

definition hex_char :: "nat \<Rightarrow> char" where
  "hex_char d = (if d < 10 then digit_char d else char_of (of_char (CHR ''a'') + (d - 10) :: nat))"

definition dquote :: char where
  "dquote = CHR 0x22"

definition backslash :: char where
  "backslash = CHR 0x5C"

definition escape_char :: "char \<Rightarrow> string" where
  "escape_char c =
     (let n = (of_char c :: nat) in
      if c = dquote then [backslash, dquote]
      else if c = backslash then [backslash, backslash]
      else if n = 8 then [backslash, CHR ''b'']
      else if n = 12 then [backslash, CHR ''f'']
      else if n = 10 then [backslash, CHR ''n'']
      else if n = 13 then [backslash, CHR ''r'']
      else if n = 9 then [backslash, CHR ''t'']
      else if n < 32 then [backslash, CHR ''u'', CHR ''0'', CHR ''0'', hex_char (n div 16), hex_char (n mod 16)]
      else [c])"

definition quote :: "string \<Rightarrow> string" where
  "quote s = dquote # concat (map escape_char s) @ [dquote]"

text \<open>
  \<open>JSON.stringify v\<close>: \<open>None\<close> is the result \<open>undefined\<close>. Inside an array
  \<open>undefined\<close> is written \<open>null\<close>; inside an object the property is left out. Only
  own properties are written.
\<close>

fun JSON_stringify :: "json \<Rightarrow> string option" where
  "JSON_stringify JUndefined = None"
| "JSON_stringify JNull = Some ''null''"
| "JSON_stringify (JBool b) = Some (if b then ''true'' else ''false'')"
| "JSON_stringify (JNum i) = Some (string_of_int i)"
| "JSON_stringify (JStr s) = Some (quote s)"
| "JSON_stringify (JArr xs) =
     Some (''['' @ join '','' (map (\<lambda>x. case JSON_stringify x of None \<Rightarrow> ''null'' | Some t \<Rightarrow> t) xs) @ '']'')"
| "JSON_stringify (JObj fs) =
     Some (''{'' @ join '','' (concat (map (\<lambda>(k, v). case JSON_stringify v of None \<Rightarrow> []
                                                    | Some t \<Rightarrow> [quote k @ '':'' @ t]) fs)) @ ''}'')"
| "JSON_stringify (JObjProto fs p) =
     Some (''{'' @ join '','' (concat (map (\<lambda>(k, v). case JSON_stringify v of None \<Rightarrow> []
                                                    | Some t \<Rightarrow> [quote k @ '':'' @ t]) fs)) @ ''}'')"

subsection \<open>Objects\<close>

text \<open>
  Reading a property (\<open>get\<close>, \<open>undefined\<close> when the object has none), the operator
  \<open>in\<close> (\<open>has_key\<close>), assignment (\<open>set_key\<close>: in place when the key exists, at the end
  otherwise) and \<open>delete\<close>.
\<close>

type_synonym obj = "(string \<times> json) list"

definition keys :: "obj \<Rightarrow> string list" where
  "keys fs = map fst fs"

definition has_key :: "obj \<Rightarrow> string \<Rightarrow> bool" where
  "has_key fs k = (k \<in> set (keys fs))"

definition get :: "obj \<Rightarrow> string \<Rightarrow> json" where
  "get fs k = (case map_of fs k of None \<Rightarrow> JUndefined | Some v \<Rightarrow> v)"

fun set_key :: "obj \<Rightarrow> string \<Rightarrow> json \<Rightarrow> obj" where
  "set_key [] k v = [(k, v)]"
| "set_key ((k', v') # fs) k v = (if k' = k then (k, v) # fs else (k', v') # set_key fs k v)"

definition delete_key :: "obj \<Rightarrow> string \<Rightarrow> obj" where
  "delete_key fs k = filter (\<lambda>(k', v). k' \<noteq> k) fs"

fun truthy :: "json \<Rightarrow> bool" where
  "truthy JUndefined = False"
| "truthy JNull = False"
| "truthy (JBool b) = b"
| "truthy (JNum i) = (i \<noteq> 0)"
| "truthy (JStr s) = (s \<noteq> [])"
| "truthy (JArr xs) = True"
| "truthy (JObj fs) = True"
| "truthy (JObjProto fs p) = True"

fun typeof :: "json \<Rightarrow> string" where
  "typeof JUndefined = ''undefined''"
| "typeof JNull = ''object''"
| "typeof (JBool b) = ''boolean''"
| "typeof (JNum i) = ''number''"
| "typeof (JStr s) = ''string''"
| "typeof (JArr xs) = ''object''"
| "typeof (JObj fs) = ''object''"
| "typeof (JObjProto fs p) = ''object''"

fun isArray :: "json \<Rightarrow> bool" where
  "isArray (JArr xs) = True"
| "isArray v = False"

definition index_keys :: "nat \<Rightarrow> string list" where
  "index_keys n = map string_of_nat [0..<n]"

text \<open>
  The order in which an object lists its own properties: first the keys that are array
  indices, the decimal forms of the integers below \<open>2^32 - 1\<close>, in ascending order, then
  the other keys in the order in which they were added. \<open>own_property_order\<close> puts the
  pairs \<open>es\<close>, given in the order in which they were added, in this order.
\<close>

definition is_digit :: "char \<Rightarrow> bool" where
  "is_digit c = (48 \<le> (of_char c :: nat) \<and> (of_char c :: nat) \<le> 57)"

definition int_of_digits :: "string \<Rightarrow> int" where
  "int_of_digits k = foldl (\<lambda>n c. 10 * n + (of_char c - 48)) 0 k"

definition array_index :: "string \<Rightarrow> int option" where
  "array_index k =
     (if k \<noteq> [] \<and> list_all is_digit k \<and> (if hd k = CHR ''0'' then k = ''0'' else True)
      then (if int_of_digits k < 4294967295 then Some (int_of_digits k) else None)
      else None)"

definition key_rank :: "string \<Rightarrow> int" where
  "key_rank k = (case array_index k of Some n \<Rightarrow> n | None \<Rightarrow> 4294967295)"

definition own_property_order :: "obj \<Rightarrow> obj" where
  "own_property_order es = sort_key (\<lambda>(k, v). key_rank k) es"

text \<open>The own enumerable properties of a value: what an object spread copies.\<close>

fun entries :: "json \<Rightarrow> obj" where
  "entries (JObj fs) = fs"
| "entries (JObjProto fs p) = fs"
| "entries (JArr xs) = zip (index_keys (length xs)) xs"
| "entries (JStr s) = zip (index_keys (length s)) (map (\<lambda>c. JStr [c]) s)"
| "entries v = []"

text \<open>
  Reading a property of a value that is not \<open>null\<close> or \<open>undefined\<close>, under a name that
  is no array index and no built-in property: an own property first, then the prototype's.
\<close>

fun get_prop :: "json \<Rightarrow> string \<Rightarrow> json" where
  "get_prop (JObj fs) k = get fs k"
| "get_prop (JObjProto fs p) k = (if has_key fs k then get fs k else get_prop p k)"
| "get_prop v k = JUndefined"

text \<open>
  \<open>for (const key in v)\<close> with \<open>v[key]\<close>, on a value whose \<open>typeof\<close> is \<open>object\<close>: the
  own properties, then those of the prototype that no own property hides. \<open>null\<close> has
  none.
\<close>

fun for_in :: "json \<Rightarrow> obj" where
  "for_in (JObj fs) = fs"
| "for_in (JObjProto fs p) = fs @ filter (\<lambda>(k, v). k \<notin> set (keys fs)) (for_in p)"
| "for_in (JArr xs) = zip (index_keys (length xs)) xs"
| "for_in v = []"

fun is_object :: "json \<Rightarrow> bool" where
  "is_object (JArr xs) = True"
| "is_object (JObj fs) = True"
| "is_object (JObjProto fs p) = True"
| "is_object v = False"

text \<open>
  The object that \<open>const result = {}\<close> followed by \<open>result[key] = value\<close> for the pairs
  \<open>es\<close> builds, each key once. Every key but \<open>__proto__\<close> becomes an own property. The
  assignment to \<open>__proto__\<close> runs the setter that \<open>result\<close> inherits: it makes an object,
  an array or \<open>null\<close> the prototype of \<open>result\<close>, does nothing with any other value, and
  adds no own property. The own properties are listed in the order of the object.
\<close>

definition object_of :: "obj \<Rightarrow> json" where
  "object_of es =
     (let own = own_property_order (filter (\<lambda>(k, v). k \<noteq> ''__proto__'') es) in
      case map_of es ''__proto__'' of
        None \<Rightarrow> JObj own
      | Some p \<Rightarrow> if is_object p \<or> p = JNull then JObjProto own p else JObj own)"

section \<open>The transformations of \<open>transform.ts\<close>\<close>

subsection \<open>\<open>cleanSchemaForGemini\<close>\<close>

definition UNSUPPORTED_FIELDS :: "string list" where
  "UNSUPPORTED_FIELDS =
     [''$schema'', ''additionalProperties'', ''exclusiveMinimum'', ''exclusiveMaximum'',
      ''multipleOf'', ''patternProperties'', ''dependencies'', ''const'', ''if'', ''then'',
      ''else'', ''allOf'', ''anyOf'', ''oneOf'', ''not'']"

lemma size_field: "(k, v) \<in> set fs \<Longrightarrow> size v < size (JObj fs)"
  by (induction fs) auto

lemma size_elem: "x \<in> set xs \<Longrightarrow> size x < size (JArr xs)"
  by (induction xs) auto

lemma size_for_in: "(k, x) \<in> set (for_in v) \<Longrightarrow> size x < size v"
proof (induction v rule: for_in.induct)
  case (1 fs)
  then show ?case by (simp add: size_field del: json.size)
next
  case (2 fs p)
  have "(k, x) \<in> set fs \<Longrightarrow> size x < size (JObjProto fs p)"
    by (induction fs) auto
  with 2 show ?case by fastforce
next
  case (3 xs)
  then have "x \<in> set xs"
    by (auto dest: set_zip_rightD)
  then show ?case by (simp add: size_elem del: json.size)
qed simp_all

lemma size_filter_for_in: "(k, x) \<in> set (filter P (for_in v)) \<Longrightarrow> size x < size v"
  by (auto dest: size_for_in)

function (sequential) cleanSchemaForGemini :: "json \<Rightarrow> json"
  and clean_properties :: "json \<Rightarrow> json"
  and clean_array_items :: "json \<Rightarrow> json" where
  "cleanSchemaForGemini (JArr xs) = JArr (map cleanSchemaForGemini xs)"
| "cleanSchemaForGemini (JObj fs) =
     object_of
       (map (\<lambda>(key, v).
               (key,
                if key = ''properties'' \<and> typeof v = ''object'' then clean_properties v
                else if key = ''items'' \<and> typeof v = ''object'' then cleanSchemaForGemini v
                else if typeof v = ''object'' \<and> \<not> isArray v then cleanSchemaForGemini v
                else if isArray v then clean_array_items v
                else v))
          (filter (\<lambda>(key, v). key \<notin> set UNSUPPORTED_FIELDS) (for_in (JObj fs))))"
| "cleanSchemaForGemini (JObjProto fs p) =
     object_of
       (map (\<lambda>(key, v).
               (key,
                if key = ''properties'' \<and> typeof v = ''object'' then clean_properties v
                else if key = ''items'' \<and> typeof v = ''object'' then cleanSchemaForGemini v
                else if typeof v = ''object'' \<and> \<not> isArray v then cleanSchemaForGemini v
                else if isArray v then clean_array_items v
                else v))
          (filter (\<lambda>(key, v). key \<notin> set UNSUPPORTED_FIELDS) (for_in (JObjProto fs p))))"
| "cleanSchemaForGemini v = v"
| "clean_properties v =
     object_of (map (\<lambda>(propKey, pv). (propKey, cleanSchemaForGemini pv)) (for_in v))"
| "clean_array_items (JArr xs) =
     JArr (map (\<lambda>item. if typeof item = ''object'' then cleanSchemaForGemini item else item) xs)"
| "clean_array_items v = v"
  by pat_completeness auto
termination
  apply (relation "measure (\<lambda>x. case x of Inl v \<Rightarrow> size v | Inr (Inl v) \<Rightarrow> size v | Inr (Inr v) \<Rightarrow> size v)")
  apply (simp_all only: in_measure wf_measure sum.case)
  apply (blast intro: size_for_in size_filter_for_in size_elem)+
  done

subsection \<open>\<open>sanitizeRoot\<close>\<close>

definition DROP_KEYS :: "string list" where
  "DROP_KEYS =
     [''n'', ''presence_penalty'', ''frequency_penalty'', ''best_of'', ''logit_bias'', ''seed'',
      ''stream_options'', ''logprobs'', ''top_logprobs'', ''user'', ''response_format'',
      ''service_tier'', ''parallel_tool_calls'', ''functions'', ''function_call'', ''developer'',
      ''strict'', ''reasoning_effort'']"

text \<open>
  The request is an object, changed in place by the function; the model returns it beside
  the list \<open>dropped\<close>. Each definition is one statement of the function.
\<close>

definition rename_stop :: "obj \<Rightarrow> obj" where
  "rename_stop req =
     (let stop = get req ''stop'' in
      if stop \<noteq> JUndefined
      then delete_key (set_key req ''stop_sequences'' (if isArray stop then stop else JArr [stop])) ''stop''
      else req)"

definition move_user :: "obj \<times> string list \<Rightarrow> obj \<times> string list" where
  "move_user = (\<lambda>(req, dropped).
     if truthy (get req ''user'')
     then (delete_key
             (set_key req ''metadata''
                (JObj (set_key (entries (get req ''metadata'')) ''user_id'' (get req ''user''))))
             ''user'',
           dropped @ [''user''])
     else (req, dropped))"

fun drop_keys :: "string list \<Rightarrow> obj \<times> string list \<Rightarrow> obj \<times> string list" where
  "drop_keys [] (req, dropped) = (req, dropped)"
| "drop_keys (key # ks) (req, dropped) =
     (if has_key req key then drop_keys ks (delete_key req key, dropped @ [key])
      else drop_keys ks (req, dropped))"

definition ensure_max_tokens :: "obj \<Rightarrow> obj" where
  "ensure_max_tokens req =
     (if get req ''max_tokens'' = JNull \<or> get req ''max_tokens'' = JUndefined
      then set_key req ''max_tokens'' (JNum 4096)
      else req)"

definition sanitizeRoot :: "obj \<Rightarrow> obj \<times> string list" where
  "sanitizeRoot req =
     (let (req1, dropped1) = move_user (rename_stop req, []);
          (req2, dropped2) = drop_keys DROP_KEYS (req1, dropped1)
      in (ensure_max_tokens req2, dropped2))"

subsection \<open>\<open>removeUriFormat\<close>\<close>

function (sequential) removeUriFormat :: "json \<Rightarrow> json"
  and removeUriFormat_properties :: "json \<Rightarrow> json"
  and removeUriFormat_items :: "json \<Rightarrow> json" where
  "removeUriFormat (JArr xs) = JArr (map removeUriFormat xs)"
| "removeUriFormat (JObj fs) =
     (if get_prop (JObj fs) ''type'' = JStr ''string'' \<and> get_prop (JObj fs) ''format'' = JStr ''uri''
      then JObj (delete_key fs ''format'')
      else object_of
             (map (\<lambda>(key, v).
                     (key,
                      if key = ''properties'' \<and> typeof v = ''object'' then removeUriFormat_properties v
                      else if key = ''items'' \<and> typeof v = ''object'' then removeUriFormat v
                      else if key = ''additionalProperties'' \<and> typeof v = ''object'' then removeUriFormat v
                      else if key \<in> set [''anyOf'', ''allOf'', ''oneOf''] \<and> isArray v
                      then removeUriFormat_items v
                      else removeUriFormat v))
                (for_in (JObj fs))))"
| "removeUriFormat (JObjProto fs p) =
     (if get_prop (JObjProto fs p) ''type'' = JStr ''string'' \<and>
         get_prop (JObjProto fs p) ''format'' = JStr ''uri''
      then JObj (delete_key fs ''format'')
      else object_of
             (map (\<lambda>(key, v).
                     (key,
                      if key = ''properties'' \<and> typeof v = ''object'' then removeUriFormat_properties v
                      else if key = ''items'' \<and> typeof v = ''object'' then removeUriFormat v
                      else if key = ''additionalProperties'' \<and> typeof v = ''object'' then removeUriFormat v
                      else if key \<in> set [''anyOf'', ''allOf'', ''oneOf''] \<and> isArray v
                      then removeUriFormat_items v
                      else removeUriFormat v))
                (for_in (JObjProto fs p))))"
| "removeUriFormat v = v"
| "removeUriFormat_properties v =
     object_of (map (\<lambda>(propKey, pv). (propKey, removeUriFormat pv)) (for_in v))"
| "removeUriFormat_items (JArr xs) = JArr (map removeUriFormat xs)"
| "removeUriFormat_items v = v"
  by pat_completeness auto
termination
  apply (relation "measure (\<lambda>x. case x of Inl v \<Rightarrow> size v | Inr (Inl v) \<Rightarrow> size v | Inr (Inr v) \<Rightarrow> size v)")
  apply (simp_all only: in_measure wf_measure sum.case)
  apply (blast intro: size_for_in size_elem)+
  done

subsection \<open>\<open>transformOpenAIToClaude\<close>\<close>

datatype js_error = TypeError | URIError

text \<open>
  The payload is an object. \<open>json_clone\<close> is \<open>JSON.parse(JSON.stringify(v))\<close> on a value of
  this model; an exception the function lets escape is the result \<open>Inl\<close>.
\<close>

fun json_clone :: "json \<Rightarrow> json" where
  "json_clone (JArr xs) = JArr (map (\<lambda>x. if x = JUndefined then JNull else json_clone x) xs)"
| "json_clone (JObj fs) =
     JObj (map (\<lambda>(k, v). (k, json_clone v)) (filter (\<lambda>(k, v). v \<noteq> JUndefined) fs))"
| "json_clone (JObjProto fs p) =
     JObj (map (\<lambda>(k, v). (k, json_clone v)) (filter (\<lambda>(k, v). v \<noteq> JUndefined) fs))"
| "json_clone v = v"

text \<open>
  \<open>String.prototype.trim\<close>: white space and line terminators are taken off both ends.
  \<open>white_space\<close> lists them in UTF-8; \<open>ws_start\<close> and \<open>ws_end\<close> are the length of the
  one a string starts or ends with (0 when there is none).
\<close>

definition white_space :: "string list" where
  "white_space =
     map (map char_of)
       ([[9], [10], [11], [12], [13], [32], [0xC2, 0xA0], [0xE1, 0x9A, 0x80]]
        @ map (\<lambda>c. [0xE2, 0x80, c]) [0x80..<0x8B]
        @ [[0xE2, 0x80, 0xA8], [0xE2, 0x80, 0xA9], [0xE2, 0x80, 0xAF], [0xE2, 0x81, 0x9F],
           [0xE3, 0x80, 0x80], [0xEF, 0xBB, 0xBF]] :: nat list list)"

definition ws_start :: "string \<Rightarrow> nat" where
  "ws_start s = (case find (startsWith s) white_space of None \<Rightarrow> 0 | Some w \<Rightarrow> length w)"

definition ws_end :: "string \<Rightarrow> nat" where
  "ws_end s = (case find (\<lambda>w. startsWith (rev s) (rev w)) white_space of None \<Rightarrow> 0 | Some w \<Rightarrow> length w)"

function trimStart :: "string \<Rightarrow> string" where
  "trimStart s = (if ws_start s = 0 \<or> s = [] then s else trimStart (drop (ws_start s) s))"
  by pat_completeness auto
termination
  by (relation "measure length") auto

declare trimStart.simps [simp del]

function trimEnd :: "string \<Rightarrow> string" where
  "trimEnd s = (if ws_end s = 0 \<or> s = [] then s else trimEnd (take (length s - ws_end s) s))"
  by pat_completeness auto
termination
  by (relation "measure length") auto

declare trimEnd.simps [simp del]

definition trim :: "string \<Rightarrow> string" where
  "trim s = trimEnd (trimStart s)"

definition stringify_value :: "json \<Rightarrow> json" where
  "stringify_value v = (case JSON_stringify v of None \<Rightarrow> JUndefined | Some t \<Rightarrow> JStr t)"

text \<open>The callback of \<open>req.system.map\<close>.\<close>

definition system_item :: "json \<Rightarrow> json" where
  "system_item item =
     (if typeof item = ''string'' then item
      else if truthy item \<and> typeof item = ''object'' then
        (if get_prop item ''type'' = JStr ''text'' \<and> truthy (get_prop item ''text'') then get_prop item ''text''
         else if get_prop item ''type'' = JStr ''text'' \<and> truthy (get_prop item ''content'') then get_prop item ''content''
         else if truthy (get_prop item ''text'') then get_prop item ''text''
         else if truthy (get_prop item ''content'') then
           (if typeof (get_prop item ''content'') = ''string'' then get_prop item ''content''
            else stringify_value (get_prop item ''content''))
         else stringify_value item)
      else stringify_value item)"

text \<open>
  The callback of \<open>filter\<close>, \<open>text && text.trim() !== ''\<close>: calling \<open>trim\<close> on a truthy
  value that is not a string throws.
\<close>

fun system_filter :: "json list \<Rightarrow> js_error + string list" where
  "system_filter [] = Inr []"
| "system_filter (t # ts) =
     (if \<not> truthy t then system_filter ts
      else case t of
        JStr s \<Rightarrow> (case system_filter ts of
                     Inl err \<Rightarrow> Inl err
                   | Inr r \<Rightarrow> Inr (if trim s \<noteq> [] then s # r else r))
      | _ \<Rightarrow> Inl TypeError)"

definition flatten_system :: "obj \<Rightarrow> js_error + obj" where
  "flatten_system req =
     (case get req ''system'' of
        JArr items \<Rightarrow>
          (case system_filter (map system_item items) of
             Inl err \<Rightarrow> Inl err
           | Inr texts \<Rightarrow> Inr (set_key req ''system'' (JStr (join [CHR 0x0A, CHR 0x0A] texts))))
      | _ \<Rightarrow> Inr req)"

definition wrap_messages :: "obj \<Rightarrow> obj" where
  "wrap_messages req =
     (let m = get req ''messages'' in
      if \<not> isArray m then
        (if m = JNull \<or> m = JUndefined then set_key req ''messages'' (JArr [])
         else set_key req ''messages'' (JArr [m]))
      else req)"

definition clean_tool :: "json \<Rightarrow> json" where
  "clean_tool t =
     (if truthy t \<and> truthy (get_prop t ''input_schema'') then
        (case t of
           JObj tf \<Rightarrow> JObj (set_key tf ''input_schema'' (removeUriFormat (get_prop t ''input_schema'')))
         | JObjProto tf p \<Rightarrow>
             JObjProto (set_key tf ''input_schema'' (removeUriFormat (get_prop t ''input_schema''))) p
         | _ \<Rightarrow> t)
      else t)"

definition clean_tools :: "obj \<Rightarrow> obj" where
  "clean_tools req =
     (let req1 = (if \<not> isArray (get req ''tools'') then set_key req ''tools'' (JArr []) else req)
      in case get req1 ''tools'' of
           JArr ts \<Rightarrow> set_key req1 ''tools'' (JArr (map clean_tool ts))
         | _ \<Rightarrow> req1)"

record openai_result =
  claudeRequest :: obj
  droppedParams :: "string list"
  isO3Model :: bool

definition is_o3 :: "obj \<Rightarrow> bool" where
  "is_o3 req =
     (case get req ''model'' of
        JStr m \<Rightarrow> includes_str m ''o3'' \<or> includes_str m ''o1''
      | _ \<Rightarrow> False)"

definition transformOpenAIToClaude :: "obj \<Rightarrow> js_error + openai_result" where
  "transformOpenAIToClaude claudeRequestInput =
     (let req = entries (json_clone (JObj claudeRequestInput));
          o3 = is_o3 req
      in case flatten_system req of
           Inl err \<Rightarrow> Inl err
         | Inr req1 \<Rightarrow>
             let req2 = clean_tools (wrap_messages req1);
                 dropped = []
             in Inr \<lparr>claudeRequest = req2, droppedParams = dropped, isO3Model = o3\<rparr>)"

subsection \<open>\<open>decodeURIComponent\<close>\<close>

definition hex_value :: "char \<Rightarrow> nat option" where
  "hex_value c =
     (let n = (of_char c :: nat) in
      if 48 \<le> n \<and> n \<le> 57 then Some (n - 48)
      else if 65 \<le> n \<and> n \<le> 70 then Some (n - 55)
      else if 97 \<le> n \<and> n \<le> 102 then Some (n - 87)
      else None)"

text \<open>The octet of an escape \<open>%XY\<close> at the head of a string, and the rest of the string.\<close>

fun percent_octet :: "string \<Rightarrow> (nat \<times> string) option" where
  "percent_octet (p # x # y # rest) =
     (if p = CHR ''%'' then
        (case (hex_value x, hex_value y) of
           (Some a, Some b) \<Rightarrow> Some (16 * a + b, rest)
         | _ \<Rightarrow> None)
      else None)"
| "percent_octet s = None"

text \<open>The \<open>n\<close> further escapes of a multi-byte character.\<close>

fun more_octets :: "nat \<Rightarrow> string \<Rightarrow> (nat list \<times> string) option" where
  "more_octets 0 s = Some ([], s)"
| "more_octets (Suc n) s =
     (case percent_octet s of
        None \<Rightarrow> None
      | Some (b, rest) \<Rightarrow>
          (case more_octets n rest of
             None \<Rightarrow> None
           | Some (bs, rest') \<Rightarrow> Some (b # bs, rest')))"

text \<open>The number of octets a leading octet above 127 announces: its leading one bits.\<close>

definition leading_ones :: "nat \<Rightarrow> nat" where
  "leading_ones b =
     (if b < 0x80 then 0 else if b < 0xC0 then 1 else if b < 0xE0 then 2
      else if b < 0xF0 then 3 else if b < 0xF8 then 4 else 5)"

definition continuation :: "nat \<Rightarrow> bool" where
  "continuation b = (0x80 \<le> b \<and> b \<le> 0xBF)"

text \<open>The well-formed UTF-8 encodings of one code point.\<close>

fun valid_utf8 :: "nat list \<Rightarrow> bool" where
  "valid_utf8 [a, b] = (0xC2 \<le> a \<and> a \<le> 0xDF \<and> continuation b)"
| "valid_utf8 [a, b, c] =
     ((a = 0xE0 \<and> 0xA0 \<le> b \<and> b \<le> 0xBF
       \<or> (0xE1 \<le> a \<and> a \<le> 0xEC \<or> a = 0xEE \<or> a = 0xEF) \<and> continuation b
       \<or> a = 0xED \<and> 0x80 \<le> b \<and> b \<le> 0x9F)
      \<and> continuation c)"
| "valid_utf8 [a, b, c, d] =
     ((a = 0xF0 \<and> 0x90 \<le> b \<and> b \<le> 0xBF
       \<or> 0xF1 \<le> a \<and> a \<le> 0xF3 \<and> continuation b
       \<or> a = 0xF4 \<and> 0x80 \<le> b \<and> b \<le> 0x8F)
      \<and> continuation c \<and> continuation d)"
| "valid_utf8 bs = False"

lemma more_octets_length: "more_octets n s = Some (bs, rest) \<Longrightarrow> length rest \<le> length s"
proof (induction n arbitrary: s bs rest)
  case 0
  then show ?case by simp
next
  case (Suc n)
  then show ?case
    by (cases s rule: percent_octet.cases) (fastforce split: option.splits if_splits prod.splits)+
qed

lemma percent_octet_length: "percent_octet s = Some (b, rest) \<Longrightarrow> length rest < length s"
  by (cases s rule: percent_octet.cases) (auto split: option.splits if_splits)

text \<open>\<open>None\<close> is the \<open>URIError\<close> the function throws.\<close>

function decodeURIComponent :: "string \<Rightarrow> string option" where
  "decodeURIComponent [] = Some []"
| "decodeURIComponent (c # cs) =
     (if c \<noteq> CHR ''%'' then map_option ((#) c) (decodeURIComponent cs)
      else case percent_octet (c # cs) of
        None \<Rightarrow> None
      | Some (b, rest) \<Rightarrow>
          let n = leading_ones b in
          if n = 0 then map_option ((#) (char_of b)) (decodeURIComponent rest)
          else if n = 1 \<or> n > 4 then None
          else case more_octets (n - 1) rest of
            None \<Rightarrow> None
          | Some (bs, rest') \<Rightarrow>
              if valid_utf8 (b # bs)
              then map_option ((@) (map char_of (b # bs))) (decodeURIComponent rest')
              else None)"
  by pat_completeness auto

termination
proof (relation "measure length")
  fix c cs x2 x y xa x2a xb ya
  assume "percent_octet (c # cs) = Some x2" "(x, y) = x2" "xa = leading_ones x"
    "more_octets (xa - 1) y = Some x2a" "(xb, ya) = x2a"
  then show "(ya, c # cs) \<in> measure length"
    using percent_octet_length [of "c # cs" x y] more_octets_length [of "xa - 1" y xb ya]
    by simp
qed (auto dest: percent_octet_length)

subsection \<open>\<open>transformClaudeToGemini\<close>\<close>

text \<open>
  \<open>String.prototype.split\<close> with a separator that is not empty: the pieces between the
  occurrences of the separator, found from the left without overlap. \<open>acc\<close> is the piece
  being read, reversed.
\<close>

function split_from :: "string \<Rightarrow> string \<Rightarrow> string \<Rightarrow> string list" where
  "split_from sep acc s =
     (if sep = [] \<or> s = [] then [rev acc]
      else if startsWith s sep then rev acc # split_from sep [] (drop (length sep) s)
      else split_from sep (hd s # acc) (tl s))"
  by pat_completeness auto
termination
  by (relation "measure (\<lambda>(sep, acc, s). length s)") auto

declare split_from.simps [simp del]

definition split :: "string \<Rightarrow> string \<Rightarrow> string list" where
  "split s sep = (if sep = [] then map (\<lambda>c. [c]) s else split_from sep [] s)"

text \<open>
  The request in the shape the handler is given (the Claude messages API): a content
  block by its \<open>type\<close>, with the fields the function reads. A field the function only
  copies is a \<open>json\<close> value, \<open>JUndefined\<close> when the request has none; the \<open>id\<close> of a
  \<open>tool_use\<close> block is a string, empty when the block has none.
\<close>

datatype block =
    Text json
  | Image json json
  | ToolUse string json json
  | ToolResult json json
  | OtherBlock

datatype content = StringContent string | BlockContent "block list" | NoContent

record message =
  role :: string
  content :: content

text \<open>A \<open>system\<close> array is given by the \<open>text\<close> of each of its text blocks.\<close>

datatype system = SystemString string | SystemBlocks "string list"

record tool_decl =
  decl_name :: json
  description :: json
  input_schema :: json

record claude_request =
  system :: "system option"
  messages :: "message list option"
  temperature :: json
  max_tokens :: json
  stop_sequences :: json
  top_p :: json
  top_k :: json
  req_tools :: "tool_decl list option"
  thinking_budget_tokens :: "int option"

text \<open>The part a \<open>tool_use\<close> block becomes.\<close>

definition tool_use_part :: "string \<Rightarrow> json \<Rightarrow> json \<Rightarrow> json" where
  "tool_use_part block_id block_name block_input =
     (let part = [(''functionCall'', JObj [(''name'', block_name), (''args'', block_input)])] in
      if block_id \<noteq> [] \<and> includes_str block_id ''__ts_'' then
        (case split block_id ''__ts_'' of
           _ # sigEncoded # _ \<Rightarrow>
             if sigEncoded \<noteq> [] then
               (case decodeURIComponent sigEncoded of
                  Some thoughtSignature \<Rightarrow> JObj (set_key part ''thoughtSignature'' (JStr thoughtSignature))
                | None \<Rightarrow> JObj part)
             else JObj part
         | _ \<Rightarrow> JObj part)
      else JObj part)"

text \<open>
  One turn of the loop over the blocks of a message: the parts of the message so far and
  \<open>geminiPayload.contents\<close> so far, after the block.
\<close>

fun convert_block :: "block \<Rightarrow> json list \<times> json list \<Rightarrow> json list \<times> json list" where
  "convert_block (Text t) (parts, contents) = (parts @ [JObj [(''text'', t)]], contents)"
| "convert_block (Image media_type data) (parts, contents) =
     (parts @ [JObj [(''inlineData'',
                      JObj [(''mimeType'', if truthy media_type then media_type else JStr ''image/png''),
                            (''data'', data)])]],
      contents)"
| "convert_block (ToolUse block_id block_name block_input) (parts, contents) =
     (parts @ [tool_use_part block_id block_name block_input], contents)"
| "convert_block (ToolResult tool_use_id c) (parts, contents) =
     (parts,
      contents @
        [JObj [(''role'', JStr ''function''),
               (''parts'',
                JArr [JObj [(''functionResponse'',
                             JObj [(''name'', tool_use_id),
                                   (''response'',
                                    JObj [(''content'',
                                           if typeof c = ''string'' then c else stringify_value c)])])]])]])"
| "convert_block OtherBlock (parts, contents) = (parts, contents)"

definition convert_message :: "message \<Rightarrow> json list \<Rightarrow> json list" where
  "convert_message msg contents =
     (let (parts, contents') =
            (case content msg of
               StringContent s \<Rightarrow> ([JObj [(''text'', JStr s)]], contents)
             | BlockContent blocks \<Rightarrow> fold convert_block blocks ([], contents)
             | NoContent \<Rightarrow> ([], contents))
      in if length parts > 0
         then contents' @
                [JObj [(''role'', JStr (if role msg = ''assistant'' then ''model'' else role msg)),
                       (''parts'', JArr parts)]]
         else contents')"

definition system_instruction :: "system option \<Rightarrow> obj" where
  "system_instruction sys =
     (case sys of
        None \<Rightarrow> []
      | Some (SystemString s) \<Rightarrow>
          if s \<noteq> [] then [(''systemInstruction'', JObj [(''parts'', JArr [JObj [(''text'', JStr s)]])])]
          else []
      | Some (SystemBlocks items) \<Rightarrow>
          [(''systemInstruction'',
            JObj [(''parts'',
                   JArr [JObj [(''text'',
                                JStr (join [CHR 0x0A, CHR 0x0A]
                                        (map (\<lambda>t. if t \<noteq> [] then t else ''[object Object]'') items)))]])])])"

definition generation_config :: "claude_request \<Rightarrow> obj" where
  "generation_config r =
     (if temperature r \<noteq> JUndefined then [(''temperature'', temperature r)] else [])
     @ (if max_tokens r \<noteq> JUndefined then [(''maxOutputTokens'', max_tokens r)] else [])
     @ (if truthy (stop_sequences r) \<and> isArray (stop_sequences r)
        then [(''stopSequences'', stop_sequences r)] else [])
     @ (if top_p r \<noteq> JUndefined then [(''topP'', top_p r)] else [])
     @ (if top_k r \<noteq> JUndefined then [(''topK'', top_k r)] else [])"

definition function_declarations :: "tool_decl list option \<Rightarrow> obj" where
  "function_declarations ts =
     (case ts of
        None \<Rightarrow> []
      | Some decls \<Rightarrow>
          [(''tools'',
            JArr [JObj [(''functionDeclarations'',
                         JArr (map (\<lambda>t. JObj [(''name'', decl_name t),
                                                 (''description'', description t),
                                                 (''parameters'', cleanSchemaForGemini (input_schema t))])
                                 decls))]])])"

definition thinking_config :: "int option \<Rightarrow> string \<Rightarrow> obj" where
  "thinking_config budget modelId =
     (case budget of
        None \<Rightarrow> []
      | Some budget_tokens \<Rightarrow>
          if includes_str modelId ''gemini-3''
          then [(''thinking_level'', JStr (if budget_tokens \<ge> 16000 then ''high'' else ''low''))]
          else [(''thinking_config'', JObj [(''thinking_budget'', JNum (min budget_tokens 24576))])])"

text \<open>\<open>geminiPayload\<close>; the \<open>claudeRequest\<close> returned beside it is the argument.\<close>

definition transformClaudeToGemini :: "claude_request \<Rightarrow> string \<Rightarrow> json" where
  "transformClaudeToGemini r modelId =
     JObj ([(''contents'',
             JArr (case messages r of None \<Rightarrow> [] | Some msgs \<Rightarrow> fold convert_message msgs [])),
            (''generationConfig'', JObj (generation_config r))]
           @ system_instruction (system r)
           @ function_declarations (req_tools r)
           @ thinking_config (thinking_budget_tokens r) modelId)"

section \<open>The stream re-emitter of the Gemini handler\<close>

subsection \<open>Upstream frames\<close>

text \<open>
  A frame is one \<open>data:\<close> line of the upstream body after \<open>JSON.parse\<close>, read at the
  fields the handler reads: \<open>candidates\<close>, of the first candidate \<open>content.parts\<close> and
  \<open>finishReason\<close>, of a part \<open>text\<close> and \<open>functionCall\<close>, and \<open>usageMetadata\<close>.
  A field that is absent is \<open>None\<close> (an absent \<open>candidates\<close> array is the empty list,
  an absent \<open>args\<close> is \<open>JUndefined\<close>).
\<close>

record functionCall =
  name :: string
  args :: json

record part =
  part_text :: "string option"
  functionCall :: "functionCall option"

record candidate =
  content_parts :: "part list option"
  finishReason :: "string option"

record usageMetadata =
  promptTokenCount :: "nat option"
  candidatesTokenCount :: "nat option"

record chunk =
  candidates :: "candidate list"
  usageMetadata :: "usageMetadata option"

text \<open>
  A line of the body, as the loop over \<open>lines\<close> sorts it: a line the loop passes over
  (blank, a comment starting with a colon, the terminator \<open>[DONE]\<close>, or not a
  \<open>data:\<close> line), a data line whose \<open>JSON.parse\<close> throws, or a data line holding a frame.
\<close>

datatype line = Ignored | Malformed | Data chunk

text \<open>
  The body: there is none, or its lines followed by the end of the stream (\<open>done\<close>) or by
  \<open>reader.read()\<close> rejecting with an error whose \<open>String(err)\<close> is given.
\<close>

datatype ending = Done | ReadError string

datatype upstream = NoBody | Body "line list" ending

subsection \<open>Outbound events\<close>

datatype content_block = TextBlock string | ToolUseBlock string string

datatype delta = TextDelta string | InputJsonDelta "string option"

datatype usage = Usage (input_tokens: nat) (output_tokens: nat)

datatype delta_usage = FullUsage usage | OutputOnly nat

datatype event =
    MessageStart string string nat nat
  | ContentBlockStart int content_block
  | ContentBlockDelta int delta
  | ContentBlockStop int
  | MessageDelta "string option" delta_usage
  | MessageStop
  | ErrorEvent string

subsection \<open>Session state\<close>

text \<open>
  The variables of \<open>start(controller)\<close>, with the queue of the controller as the list
  \<open>outbound\<close> of events sent so far. \<open>Date.now()\<close> and \<open>Math.random()\<close> are the
  environment: it gives the message id and, for the block index a tool call is given,
  the tool id drawn there. \<open>isClosed\<close> is set when the stream is closed at its end; the
  consumer cancelling the stream between two reads is not part of the model.
\<close>

record tool =
  tool_id :: string
  tool_name :: string
  tool_args :: json

record session =
  isClosed :: bool
  outbound :: "event list"
  usage :: "usage option"
  finalized :: bool
  textStarted :: bool
  textIdx :: int
  curIdx :: int
  tools :: "int \<rightharpoonup> tool"
  accumulatedText :: string

record env =
  msgId :: string
  toolId :: "int \<Rightarrow> string"

text \<open>
  The fields of the handler object the stream reads and writes. The running cost is
  floating-point arithmetic and the token file is the file system; neither is modelled.
\<close>

record handler =
  targetModel :: string
  sessionInputTokens :: nat
  sessionOutputTokens :: nat

definition send :: "event \<Rightarrow> session \<Rightarrow> session" where
  "send e s = (if \<not> isClosed s then s\<lparr>outbound := outbound s @ [e]\<rparr> else s)"

definition init_session :: session where
  "init_session =
     \<lparr>isClosed = False, outbound = [], usage = None, finalized = False, textStarted = False,
      textIdx = - 1, curIdx = 0, tools = Map.empty, accumulatedText = []\<rparr>"

subsection \<open>One frame\<close>

text \<open>\<open>if (part.text) { ... }\<close>: an empty string is falsy.\<close>

definition handle_text :: "part \<Rightarrow> session \<Rightarrow> session" where
  "handle_text p s =
     (case part_text p of
        None \<Rightarrow> s
      | Some t \<Rightarrow>
          if t = [] then s
          else
            let s1 = (if \<not> textStarted s
                      then send (ContentBlockStart (curIdx s) (TextBlock []))
                             (s\<lparr>textStarted := True, textIdx := curIdx s, curIdx := curIdx s + 1\<rparr>)
                      else s);
                s2 = s1\<lparr>accumulatedText := accumulatedText s1 @ t\<rparr>
            in send (ContentBlockDelta (textIdx s2) (TextDelta t)) s2)"

text \<open>\<open>if (part.functionCall) { ... }\<close>\<close>

definition handle_functionCall :: "env \<Rightarrow> part \<Rightarrow> session \<Rightarrow> session" where
  "handle_functionCall e p s =
     (case functionCall p of
        None \<Rightarrow> s
      | Some fc \<Rightarrow>
          let tid = toolId e (curIdx s);
              toolIdx = curIdx s;
              s1 = s\<lparr>curIdx := curIdx s + 1\<rparr>;
              s2 = send (ContentBlockStart toolIdx (ToolUseBlock tid (name fc))) s1;
              s3 = send (ContentBlockDelta toolIdx (InputJsonDelta (JSON_stringify (args fc)))) s2;
              s4 = send (ContentBlockStop toolIdx) s3
          in s4\<lparr>tools := (tools s4)(toolIdx \<mapsto> \<lparr>tool_id = tid, tool_name = name fc, tool_args = args fc\<rparr>)\<rparr>)"

definition process_part :: "env \<Rightarrow> part \<Rightarrow> session \<Rightarrow> session" where
  "process_part e p s = handle_functionCall e p (handle_text p s)"

text \<open>\<open>x || 0\<close> on a token count.\<close>

definition or0 :: "nat option \<Rightarrow> nat" where
  "or0 x = (case x of None \<Rightarrow> 0 | Some n \<Rightarrow> n)"

definition track_usage :: "chunk \<Rightarrow> session \<Rightarrow> session" where
  "track_usage c s =
     (case usageMetadata c of
        None \<Rightarrow> s
      | Some um \<Rightarrow> s\<lparr>usage := Some (Usage (or0 (promptTokenCount um)) (or0 (candidatesTokenCount um)))\<rparr>)"

definition map_finish :: "string \<Rightarrow> string option" where
  "map_finish r =
     (if r = ''STOP'' then Some ''end_turn''
      else if r = ''MAX_TOKENS'' then Some ''max_tokens''
      else None)"

text \<open>\<open>usage || { output_tokens: 0 }\<close>\<close>

definition usage_or_zero :: "usage option \<Rightarrow> delta_usage" where
  "usage_or_zero u = (case u of None \<Rightarrow> OutputOnly 0 | Some v \<Rightarrow> FullUsage v)"

definition close_text :: "session \<Rightarrow> session" where
  "close_text s = (if textStarted s then send (ContentBlockStop (textIdx s)) s else s)"

text \<open>\<open>if (candidate.finishReason && !finalized) { ... }\<close>\<close>

definition check_finish :: "candidate \<Rightarrow> session \<Rightarrow> session" where
  "check_finish cand s =
     (case finishReason cand of
        None \<Rightarrow> s
      | Some r \<Rightarrow>
          if r \<noteq> [] \<and> \<not> finalized s then
            let s1 = s\<lparr>finalized := True\<rparr>;
                s2 = close_text s1
            in send (MessageDelta (map_finish r) (usage_or_zero (usage s2))) s2
          else s)"

definition parts_of :: "candidate \<Rightarrow> part list" where
  "parts_of cand = (case content_parts cand of None \<Rightarrow> [] | Some ps \<Rightarrow> ps)"

text \<open>The body of the \<open>try\<close> for one parsed frame; a frame without a first candidate is passed over.\<close>

definition process_chunk :: "env \<Rightarrow> chunk \<Rightarrow> session \<Rightarrow> session" where
  "process_chunk e c s =
     (case candidates c of
        [] \<Rightarrow> s
      | cand # _ \<Rightarrow> check_finish cand (track_usage c (fold (process_part e) (parts_of cand) s)))"

fun process_line :: "env \<Rightarrow> line \<Rightarrow> session \<Rightarrow> session" where
  "process_line e Ignored s = s"
| "process_line e Malformed s = s"
| "process_line e (Data c) s = process_chunk e c s"

subsection \<open>The whole stream\<close>

text \<open>After the read loop has ended with \<open>done\<close>: the final events and the token tracking.\<close>

definition finish_stream :: "session \<Rightarrow> session" where
  "finish_stream s =
     (let s1 = (if \<not> finalized s
                then send (MessageDelta (Some ''end_turn'') (usage_or_zero (usage s))) (close_text s)
                else s)
      in send MessageStop s1)"

definition update_tokens :: "usage option \<Rightarrow> handler \<Rightarrow> handler" where
  "update_tokens u h =
     (case u of
        None \<Rightarrow> h
      | Some v \<Rightarrow> h\<lparr>sessionInputTokens := input_tokens v,
                    sessionOutputTokens := sessionOutputTokens h + output_tokens v\<rparr>)"

text \<open>The \<open>catch\<close> of the read loop.\<close>

definition on_error :: "string \<Rightarrow> session \<Rightarrow> session" where
  "on_error msg s = (if \<not> isClosed s then (send (ErrorEvent msg) s)\<lparr>isClosed := True\<rparr> else s)"

definition start_session :: "handler \<Rightarrow> env \<Rightarrow> session" where
  "start_session h e = send (MessageStart (msgId e) (targetModel h) 100 1) init_session"

text \<open>
  \<open>handleStreamingResponse\<close>: the handler after the stream and the session after it,
  whose \<open>outbound\<close> is what the caller receives.
\<close>

fun handleStreamingResponse :: "handler \<Rightarrow> env \<Rightarrow> upstream \<Rightarrow> handler \<times> session" where
  "handleStreamingResponse h e NoBody =
     (h, on_error ''Error: No response body'' (start_session h e))"
| "handleStreamingResponse h e (Body ls (ReadError msg)) =
     (h, on_error msg (fold (process_line e) ls (start_session h e)))"
| "handleStreamingResponse h e (Body ls Done) =
     (let s = finish_stream (fold (process_line e) ls (start_session h e))
      in (update_tokens (usage s) h, s\<lparr>isClosed := True\<rparr>))"

section \<open>Definitions used to state the properties\<close>

text \<open>
  A value as \<open>JSON.parse\<close> gives it in which no object has a key \<open>__proto__\<close>: every
  object lists its properties in the order of an object, and no prototype has been set.
\<close>

fun plain :: "json \<Rightarrow> bool" where
  "plain (JArr xs) = (\<forall>x \<in> set xs. plain x)"
| "plain (JObj fs) =
     ((\<forall>(k, v) \<in> set fs. k \<noteq> ''__proto__'' \<and> plain v) \<and> sorted (map (\<lambda>(k, v). key_rank k) fs))"
| "plain (JObjProto fs p) = False"
| "plain v = True"

text \<open>A schema as \<open>JSON.parse\<close> gives it, with an own key \<open>__proto__\<close>.\<close>

definition proto_schema :: json where
  "proto_schema = JObj [(''__proto__'', JObj [(''a'', JNum 1)]), (''b'', JNum 2)]"

text \<open>What \<open>cleanSchemaForGemini\<close> makes of the value of a key it keeps.\<close>

definition clean_field :: "string \<Rightarrow> json \<Rightarrow> json" where
  "clean_field key v =
     (if key = ''properties'' \<and> typeof v = ''object'' then clean_properties v
      else cleanSchemaForGemini v)"

text \<open>A request with two keys of the drop list, for \<open>transformOpenAIToClaude\<close>.\<close>

definition openai_payload :: obj where
  "openai_payload =
     [(''model'', JStr ''gpt-4o''), (''n'', JNum 2), (''seed'', JNum 7),
      (''messages'', JArr [JObj [(''role'', JStr ''user''), (''content'', JStr ''hi'')]])]"

text \<open>A request with a user, a stop string and two more keys of the drop list, for \<open>sanitizeRoot\<close>.\<close>

definition sanitize_request :: obj where
  "sanitize_request =
     [(''model'', JStr ''m''), (''user'', JStr ''u''), (''stop'', JStr ''x''), (''n'', JNum 2),
      (''seed'', JNull)]"

text \<open>The indices of the \<open>content_block_start\<close> events of a list of events, in order.\<close>

fun start_index :: "event \<Rightarrow> int list" where
  "start_index (ContentBlockStart i b) = [i]"
| "start_index ev = []"

definition start_indices :: "event list \<Rightarrow> int list" where
  "start_indices es = concat (map start_index es)"

text \<open>The two frames of the example of section 8 of the specification.\<close>

definition frame1 :: chunk where
  "frame1 =
     \<lparr>candidates = [\<lparr>content_parts = Some [\<lparr>part_text = Some ''Hi'', functionCall = None\<rparr>],
                      finishReason = None\<rparr>],
      usageMetadata = None\<rparr>"

definition frame2 :: chunk where
  "frame2 =
     \<lparr>candidates = [\<lparr>content_parts = Some [\<lparr>part_text = Some '' there'', functionCall = None\<rparr>],
                      finishReason = Some ''STOP''\<rparr>],
      usageMetadata = Some \<lparr>promptTokenCount = Some 10, candidatesTokenCount = Some 2\<rparr>\<rparr>"

text \<open>A handler and an environment to run examples with.\<close>

definition example_handler :: handler where
  "example_handler =
     \<lparr>targetModel = ''gemini-2.5-flash'', sessionInputTokens = 0, sessionOutputTokens = 0\<rparr>"

definition example_env :: env where
  "example_env = \<lparr>msgId = ''msg_1'', toolId = (\<lambda>i. ''toolu_'' @ string_of_int i)\<rparr>"

text \<open>
  The usage a line gives the session: that of a frame with a first candidate and usage
  metadata. \<open>usage_frames\<close> lists them for the lines of a body, in order.
\<close>

definition frame_usage :: "line \<Rightarrow> usage list" where
  "frame_usage l =
     (case l of
        Data c \<Rightarrow>
          (case (candidates c, usageMetadata c) of
             (cand # _, Some um) \<Rightarrow> [Usage (or0 (promptTokenCount um)) (or0 (candidatesTokenCount um))]
           | _ \<Rightarrow> [])
      | _ \<Rightarrow> [])"

definition usage_frames :: "line list \<Rightarrow> usage list" where
  "usage_frames ls = concat (map frame_usage ls)"

text \<open>A frame with a candidate, no parts, and the given prompt and candidates token counts.\<close>

definition usage_frame :: "nat \<Rightarrow> nat \<Rightarrow> chunk" where
  "usage_frame i out =
     \<lparr>candidates = [\<lparr>content_parts = None, finishReason = None\<rparr>],
      usageMetadata = Some \<lparr>promptTokenCount = Some i, candidatesTokenCount = Some out\<rparr>\<rparr>"

text \<open>
  The events sent between a state of the session and a later one; the block index an
  event carries.
\<close>

definition emitted_by :: "session \<Rightarrow> session \<Rightarrow> event list" where
  "emitted_by s s' = drop (length (outbound s)) (outbound s')"

fun event_index :: "event \<Rightarrow> int option" where
  "event_index (ContentBlockStart i b) = Some i"
| "event_index (ContentBlockDelta i d) = Some i"
| "event_index (ContentBlockStop i) = Some i"
| "event_index ev = None"

fun is_message_delta :: "event \<Rightarrow> bool" where
  "is_message_delta (MessageDelta r u) = True"
| "is_message_delta ev = False"

text \<open>
  A part holding the function call of the example of section 8, a frame of that part
  alone, and a frame of that part with a finish reason.
\<close>

definition call_part :: part where
  "call_part = \<lparr>part_text = None, functionCall = Some \<lparr>name = ''f'', args = JObj [(''a'', JNum 1)]\<rparr>\<rparr>"

definition call_candidate :: candidate where
  "call_candidate = \<lparr>content_parts = Some [call_part], finishReason = None\<rparr>"

definition call_only_frame :: chunk where
  "call_only_frame = \<lparr>candidates = [call_candidate], usageMetadata = None\<rparr>"

definition call_frame :: chunk where
  "call_frame =
     \<lparr>candidates = [\<lparr>content_parts = Some [call_part], finishReason = Some ''STOP''\<rparr>],
      usageMetadata = None\<rparr>"

text \<open>The session after the two frames of the example: its \<open>finalized\<close> flag is set.\<close>

definition finalized_session :: session where
  "finalized_session =
     fold (process_line example_env) [Data frame1, Data frame2]
       (start_session example_handler example_env)"

text \<open>A request of one assistant turn holding one \<open>tool_use\<close> block with the given id.\<close>

definition signed_request :: "string \<Rightarrow> claude_request" where
  "signed_request block_id =
     \<lparr>system = None,
      messages = Some [\<lparr>role = ''assistant'',
                        content = BlockContent [ToolUse block_id (JStr ''f'') (JObj [(''a'', JNum 1)])]\<rparr>],
      temperature = JUndefined, max_tokens = JUndefined, stop_sequences = JUndefined,
      top_p = JUndefined, top_k = JUndefined, req_tools = None, thinking_budget_tokens = None\<rparr>"

text \<open>
  Invariants of the session: an open session has started the blocks \<open>0, \<dots>, curIdx - 1\<close>
  in this order (\<open>indexed\<close>); the open text block has an index below \<open>curIdx\<close>
  (\<open>text_ok\<close>); the index \<open>i\<close> has been given out and is not the text block's
  (\<open>past_index\<close>); no \<open>message_stop\<close> has been sent (\<open>unstopped\<close>). \<open>grows\<close>: the
  later state has sent what the earlier one had, and more.
\<close>

definition unstopped :: "session \<Rightarrow> bool" where
  "unstopped s = (MessageStop \<notin> set (outbound s))"

definition indexed :: "session \<Rightarrow> bool" where
  "indexed s = (\<not> isClosed s \<and> 0 \<le> curIdx s \<and> start_indices (outbound s) = map int [0..<nat (curIdx s)])"

definition text_ok :: "session \<Rightarrow> bool" where
  "text_ok s = (textStarted s \<longrightarrow> textIdx s < curIdx s)"

definition past_index :: "int \<Rightarrow> session \<Rightarrow> bool" where
  "past_index i s = (i < curIdx s \<and> (textStarted s \<longrightarrow> textIdx s \<noteq> i))"

definition off_index :: "int \<Rightarrow> event list \<Rightarrow> bool" where
  "off_index i es = (\<forall>ev \<in> set es. event_index ev \<noteq> Some i)"

definition grows :: "session \<Rightarrow> session \<Rightarrow> bool" where
  "grows s s' = (outbound s' = outbound s @ emitted_by s s')"

definition late_ok :: "event list \<Rightarrow> bool" where
  "late_ok es =
     ((\<forall>ev \<in> set es. \<not> is_message_delta ev) \<and>
      (\<forall>i. ContentBlockStop i \<in> set es \<longrightarrow> (\<exists>tid nm. ContentBlockStart i (ToolUseBlock tid nm) \<in> set es)))"

section \<open>Objects\<close>

lemma keys_delete_key: "keys (delete_key req k) = filter (\<lambda>k'. k' \<noteq> k) (keys req)"
  by (induction req) (auto simp: keys_def delete_key_def)

lemma set_keys_set_key: "set (keys (set_key req k v)) = insert k (set (keys req))"
proof (induction req)
  case Nil
  show ?case by (simp add: keys_def)
next
  case (Cons p req)
  obtain k' v' where p: "p = (k', v')" by (cases p)
  show ?case
  proof (cases "k' = k")
    case True
    then show ?thesis by (simp add: p keys_def)
  next
    case False
    have "set (keys (set_key (p # req) k v)) = insert k' (set (keys (set_key req k v)))"
      using False by (simp add: p keys_def)
    also have "\<dots> = insert k' (insert k (set (keys req)))"
      by (simp only: Cons.IH)
    finally show ?thesis by (auto simp: p keys_def)
  qed
qed

lemma has_key_delete [simp]: "has_key (delete_key req k) k' = (has_key req k' \<and> k' \<noteq> k)"
  by (auto simp: has_key_def keys_delete_key)

lemma has_key_set_key [simp]: "has_key (set_key req k v) k' = (has_key req k' \<or> k' = k)"
  by (auto simp: has_key_def set_keys_set_key)

section \<open>\<open>sanitizeRoot\<close> drops the keys of the drop list\<close>

lemma DROP_KEYS_others:
  "k \<in> set DROP_KEYS \<Longrightarrow>
   k \<noteq> ''stop'' \<and> k \<noteq> ''stop_sequences'' \<and> k \<noteq> ''metadata'' \<and> k \<noteq> ''max_tokens'' \<and>
   k \<noteq> ''system'' \<and> k \<noteq> ''messages'' \<and> k \<noteq> ''tools''"
  by (auto simp: DROP_KEYS_def)

lemma drop_keys_has:
  "has_key (fst (drop_keys ks rd)) k = (has_key (fst rd) k \<and> k \<notin> set ks)"
  by (induction ks rd rule: drop_keys.induct) auto

lemma drop_keys_dropped:
  "distinct ks \<Longrightarrow> snd (drop_keys ks rd) = snd rd @ filter (has_key (fst rd)) ks"
proof (induction ks rd rule: drop_keys.induct)
  case (2 key ks req dropped)
  have "filter (has_key (delete_key req key)) ks = filter (has_key req) ks"
    using "2.prems" by (auto intro!: filter_cong)
  with 2 show ?case by (simp del: has_key_delete)
qed simp

lemma has_key_rename_stop: "k \<noteq> ''stop'' \<Longrightarrow> k \<noteq> ''stop_sequences'' \<Longrightarrow> has_key (rename_stop req) k = has_key req k"
  by (auto simp: rename_stop_def Let_def)

lemma get_truthy_has: "truthy (get req k) \<Longrightarrow> has_key req k"
  by (auto simp: get_def has_key_def keys_def split: option.splits dest: map_of_SomeD intro: rev_image_eqI)

lemma distinct_DROP_KEYS: "distinct DROP_KEYS"
  by (simp add: DROP_KEYS_def)

lemma user_in_DROP_KEYS: "''user'' \<in> set DROP_KEYS"
  by (simp add: DROP_KEYS_def)

lemma has_key_ensure: "k \<noteq> ''max_tokens'' \<Longrightarrow> has_key (ensure_max_tokens req) k = has_key req k"
  by (auto simp: ensure_max_tokens_def)

lemma has_key_move_user:
  "k \<noteq> ''metadata'' \<Longrightarrow> has_key (fst (move_user (req, d))) k = (has_key req k \<and> \<not> (k = ''user'' \<and> truthy (get req ''user'')))"
  by (auto simp: move_user_def)

lemma snd_move_user: "snd (move_user (req, d)) = d @ (if truthy (get req ''user'') then [''user''] else [])"
  by (simp add: move_user_def)

lemma sanitize_absent: "k \<in> set DROP_KEYS \<Longrightarrow> \<not> has_key (fst (sanitizeRoot req)) k"
  using DROP_KEYS_others [of k]
  by (simp add: sanitizeRoot_def Let_def split_beta has_key_ensure drop_keys_has)

lemma sanitize_dropped_set:
  "set (snd (sanitizeRoot req)) = {k \<in> set DROP_KEYS. has_key req k}"
proof -
  obtain r1 d1 where m: "move_user (rename_stop req, []) = (r1, d1)" by (cases "move_user (rename_stop req, [])")
  have hk: "has_key r1 k = (has_key req k \<and> \<not> (k = ''user'' \<and> truthy (get (rename_stop req) ''user'')))" if "k \<in> set DROP_KEYS" for k
    using has_key_move_user [of k "rename_stop req" "[]"] m DROP_KEYS_others [OF that]
    by (simp add: has_key_rename_stop)
  have d1: "d1 = (if truthy (get (rename_stop req) ''user'') then [''user''] else [])"
    using snd_move_user [of "rename_stop req" "[]"] m by simp
  have tr: "truthy (get (rename_stop req) ''user'') \<Longrightarrow> has_key req ''user''"
    using get_truthy_has [of "rename_stop req" "''user''"] by (simp add: has_key_rename_stop)
  have "snd (sanitizeRoot req) = d1 @ filter (has_key r1) DROP_KEYS"
    using m by (simp add: sanitizeRoot_def split_beta drop_keys_dropped distinct_DROP_KEYS)
  then show ?thesis
    using hk d1 tr user_in_DROP_KEYS by auto
qed

lemma sanitize_dropped_distinct: "distinct (snd (sanitizeRoot req))"
proof -
  obtain r1 d1 where m: "move_user (rename_stop req, []) = (r1, d1)" by (cases "move_user (rename_stop req, [])")
  have hk: "\<not> has_key r1 ''user''" if "truthy (get (rename_stop req) ''user'')"
    using has_key_move_user [of "''user''" "rename_stop req" "[]"] m that by simp
  have d1: "d1 = (if truthy (get (rename_stop req) ''user'') then [''user''] else [])"
    using snd_move_user [of "rename_stop req" "[]"] m by simp
  have "snd (sanitizeRoot req) = d1 @ filter (has_key r1) DROP_KEYS"
    using m by (simp add: sanitizeRoot_def split_beta drop_keys_dropped distinct_DROP_KEYS)
  then show ?thesis
    using hk d1 distinct_DROP_KEYS by auto
qed

text \<open>
  C8. After \<open>sanitizeRoot\<close>, no key of the drop list is a key of the request, and the
  list of dropped keys holds the keys of the drop list that the request had on entry,
  each once.
\<close>

theorem sanitizeRoot_drops:
  "(\<forall>k \<in> set DROP_KEYS. \<not> has_key (fst (sanitizeRoot req)) k) \<and>
   set (snd (sanitizeRoot req)) = {k \<in> set DROP_KEYS. has_key req k} \<and>
   distinct (snd (sanitizeRoot req))"
  by (simp add: sanitize_absent sanitize_dropped_set sanitize_dropped_distinct)

theorem sanitizeRoot_drops_witness:
  "''n'' \<in> set DROP_KEYS \<and> has_key sanitize_request ''n'' \<and>
   \<not> has_key (fst (sanitizeRoot sanitize_request)) ''n'' \<and>
   snd (sanitizeRoot sanitize_request) = [''user'', ''n'', ''seed'']"
proof -
  have n: "''n'' \<in> set DROP_KEYS"
    by (simp add: DROP_KEYS_def)
  have h: "has_key sanitize_request ''n''"
    by (simp add: sanitize_request_def has_key_def keys_def)
  from sanitizeRoot_drops [of sanitize_request] n
  have "\<not> has_key (fst (sanitizeRoot sanitize_request)) ''n''"
    by blast
  moreover have "snd (sanitizeRoot sanitize_request) = [''user'', ''n'', ''seed'']"
    by code_simp
  ultimately show ?thesis
    using n h by blast
qed

section \<open>\<open>cleanSchemaForGemini\<close> applied twice\<close>

text \<open>
  C9. The pruning is not idempotent in the code. A schema with an own key \<open>__proto__\<close>,
  here \<open>{"__proto__": {"a": 1}, "b": 2}\<close>, is pruned to an object with the one own
  property \<open>b\<close>, the value of \<open>__proto__\<close> having become its prototype; pruning that
  object again copies the inherited \<open>a\<close> as an own property. The two results differ, also
  as \<open>JSON.stringify\<close> writes them.
\<close>

theorem cleanSchemaForGemini_proto:
  \<open>cleanSchemaForGemini proto_schema = JObjProto [(''b'', JNum 2)] (JObj [(''a'', JNum 1)]) \<and>
   cleanSchemaForGemini (cleanSchemaForGemini proto_schema) = JObj [(''b'', JNum 2), (''a'', JNum 1)] \<and>
   JSON_stringify (cleanSchemaForGemini proto_schema) = Some ''{"b":2}'' \<and>
   JSON_stringify (cleanSchemaForGemini (cleanSchemaForGemini proto_schema)) = Some ''{"b":2,"a":1}''\<close>
  by code_simp

text \<open>
  On the values of \<open>JSON.parse\<close> in which no object has a key \<open>__proto__\<close> the pruning is
  idempotent, and the pruned value is again such a value.
\<close>

lemma object_of_plain:
  assumes a: "''__proto__'' \<notin> set (keys es)" and s: "sorted (map (\<lambda>(k, v). key_rank k) es)"
  shows "object_of es = JObj es"
proof -
  from a have "map_of es ''__proto__'' = None"
    by (simp add: keys_def map_of_eq_None_iff)
  moreover have "filter (\<lambda>(k, v). k \<noteq> ''__proto__'') es = es"
    using a by (induction es) (auto simp: keys_def)
  moreover have "own_property_order es = es"
    using s by (simp add: own_property_order_def sort_key_id_if_sorted)
  ultimately show ?thesis by (simp add: object_of_def)
qed

lemma digit_char_value: "d < 10 \<Longrightarrow> (of_char (digit_char d) :: nat) = 48 + d"
  by (simp add: digit_char_def)

lemma digit_char_int: "d < 10 \<Longrightarrow> (of_char (digit_char d) :: int) = 48 + int d"
proof -
  assume "d < 10"
  then have "(of_char (digit_char d) :: nat) = 48 + d"
    by (rule digit_char_value)
  then have "int (of_char (digit_char d)) = int (48 + d)"
    by (rule arg_cong)
  then show ?thesis
    by (simp add: of_nat_of_char)
qed

lemma int_of_digits_snoc:
  "int_of_digits (cs @ [c]) = 10 * int_of_digits cs + (of_char c - 48)"
  by (simp add: int_of_digits_def)

lemma string_of_nat_small: "n < 10 \<Longrightarrow> string_of_nat n = [digit_char n]"
  by (subst string_of_nat.simps) simp

lemma string_of_nat_large:
  "\<not> n < 10 \<Longrightarrow> string_of_nat n = string_of_nat (n div 10) @ [digit_char (n mod 10)]"
  by (subst string_of_nat.simps) simp

lemma string_of_nat_not_empty: "string_of_nat n \<noteq> []"
  by (subst string_of_nat.simps) simp

lemma int_of_digits_string_of_nat: "int_of_digits (string_of_nat n) = int n"
proof (induction n rule: string_of_nat.induct)
  case (1 n)
  show ?case
  proof (cases "n < 10")
    case True
    then show ?thesis
      by (simp add: string_of_nat_small int_of_digits_def digit_char_int)
  next
    case False
    then have "int_of_digits (string_of_nat n) = 10 * int (n div 10) + int (n mod 10)"
      using 1 by (simp add: string_of_nat_large int_of_digits_snoc digit_char_int)
    also have "\<dots> = int (10 * (n div 10) + n mod 10)"
      by (simp only: of_nat_add of_nat_mult of_nat_numeral)
    also have "10 * (n div 10) + n mod 10 = n"
      by simp
    finally show ?thesis .
  qed
qed

lemma digits_string_of_nat: "list_all is_digit (string_of_nat n)"
proof (induction n rule: string_of_nat.induct)
  case (1 n)
  show ?case
  proof (cases "n < 10")
    case True
    then show ?thesis
      by (simp add: string_of_nat_small is_digit_def digit_char_value)
  next
    case False
    then show ?thesis
      using 1 by (simp add: string_of_nat_large is_digit_def digit_char_value)
  qed
qed

lemma digit_char_zero: "d < 10 \<Longrightarrow> digit_char d = CHR ''0'' \<Longrightarrow> d = 0"
proof -
  assume d: "d < 10" and "digit_char d = CHR ''0''"
  then have "(of_char (digit_char d) :: nat) = of_char (CHR ''0'')"
    by simp
  then show "d = 0"
    using d by (simp add: digit_char_value)
qed

lemma hd_string_of_nat: "hd (string_of_nat n) = CHR ''0'' \<Longrightarrow> n = 0"
proof (induction n rule: string_of_nat.induct)
  case (1 n)
  show ?case
  proof (cases "n < 10")
    case True
    then show ?thesis
      using 1(2) by (simp add: string_of_nat_small digit_char_zero)
  next
    case False
    then have "hd (string_of_nat (n div 10)) = CHR ''0''"
      using 1(2) by (simp add: string_of_nat_large string_of_nat_not_empty)
    then have "n div 10 = 0"
      using 1(1) False by simp
    then show ?thesis
      using False by simp
  qed
qed

lemma string_of_nat_zero: "string_of_nat 0 = ''0''"
  by code_simp

lemma key_rank_string_of_nat: "key_rank (string_of_nat i) = min (int i) 4294967295"
proof -
  have "(if hd (string_of_nat i) = CHR ''0'' then string_of_nat i = ''0'' else True)"
    using hd_string_of_nat [of i] string_of_nat_zero by auto
  then have "array_index (string_of_nat i) = (if int i < 4294967295 then Some (int i) else None)"
    by (simp add: array_index_def string_of_nat_not_empty digits_string_of_nat
        int_of_digits_string_of_nat)
  then show ?thesis
    by (simp add: key_rank_def)
qed

lemma sorted_index_keys: "sorted (map key_rank (index_keys n))"
  by (induction n) (auto simp: index_keys_def sorted_append key_rank_string_of_nat)

lemma rank_zip: "length ks = length xs \<Longrightarrow> map (\<lambda>(k, v). key_rank k) (zip ks xs) = map key_rank ks"
  by (induction ks xs rule: list_induct2) auto

lemma rank_map_field:
  "map (\<lambda>(k, v). key_rank k) (map (\<lambda>(key, v). (key, f key v)) fs) = map (\<lambda>(k, v). key_rank k) fs"
  by (induction fs) auto

lemma rank_map_value:
  "map (\<lambda>(k, v). key_rank k) (map (\<lambda>(key, v). (key, f v)) fs) = map (\<lambda>(k, v). key_rank k) fs"
  by (induction fs) auto

lemma plain_sorted: "plain (JObj fs) \<Longrightarrow> sorted (map (\<lambda>(k, v). key_rank k) fs)"
  by simp

lemma last_string_of_nat: "last (string_of_nat n) = digit_char (n mod 10)"
  by (subst string_of_nat.simps) simp

lemma digit_char_not_underscore: "digit_char (n mod 10) \<noteq> CHR ''_''"
proof
  assume "digit_char (n mod 10) = CHR ''_''"
  then have "(of_char (digit_char (n mod 10)) :: nat) = of_char (CHR ''_'')"
    by simp
  moreover have "n mod 10 < 10"
    by simp
  ultimately show False
    by (simp add: digit_char_def)
qed

lemma string_of_nat_not_proto: "string_of_nat n \<noteq> ''__proto__''"
proof
  assume "string_of_nat n = ''__proto__''"
  then have "last (string_of_nat n) = CHR ''_''" by simp
  then show False
    using digit_char_not_underscore [of n] by (simp add: last_string_of_nat)
qed

lemma index_keys_not_proto: "''__proto__'' \<notin> set (index_keys n)"
proof
  assume "''__proto__'' \<in> set (index_keys n)"
  then obtain i where "string_of_nat i = ''__proto__''"
    by (auto simp: index_keys_def)
  then show False
    by (simp add: string_of_nat_not_proto)
qed

lemma keys_zip: "length ks = length xs \<Longrightarrow> keys (zip ks xs) = ks"
  by (simp add: keys_def)

lemma keys_map_field: "keys (map (\<lambda>(key, v). (key, f key v)) fs) = keys fs"
  by (induction fs) (auto simp: keys_def)

lemma keys_map_value: "keys (map (\<lambda>(key, v). (key, f v)) fs) = keys fs"
  by (induction fs) (auto simp: keys_def)

lemma clean_non_object: "typeof v \<noteq> ''object'' \<Longrightarrow> cleanSchemaForGemini v = v"
  by (cases v) simp_all

lemma clean_array_items_eq: "isArray v \<Longrightarrow> clean_array_items v = cleanSchemaForGemini v"
  by (cases v) (auto simp: clean_non_object)

lemma clean_obj:
  "cleanSchemaForGemini (JObj fs) =
     object_of (map (\<lambda>(key, v). (key, clean_field key v))
                  (filter (\<lambda>(key, v). key \<notin> set UNSUPPORTED_FIELDS) fs))"
  by (auto simp: clean_field_def clean_array_items_eq clean_non_object intro!: arg_cong [where f = object_of])

lemma filter_map_keys:
  "filter (\<lambda>(key, v). P key) (map (\<lambda>(key, v). (key, f key v)) fs) =
   map (\<lambda>(key, v). (key, f key v)) (filter (\<lambda>(key, v). P key) fs)"
  by (induction fs) auto

lemma zip_map_snd: "map (\<lambda>(k, v). (k, f v)) (zip ks xs) = zip ks (map f xs)"
  by (induction ks xs rule: list_induct2') auto

lemma plain_keys: "plain (JObj fs) \<Longrightarrow> ''__proto__'' \<notin> set (keys fs)"
  by (auto simp: keys_def)

lemma keys_filter_subset: "set (keys (filter P fs)) \<subseteq> set (keys fs)"
  by (auto simp: keys_def)

lemma clean_obj_plain:
  assumes "plain (JObj fs)"
  shows "cleanSchemaForGemini (JObj fs) =
     JObj (map (\<lambda>(key, v). (key, clean_field key v))
             (filter (\<lambda>(key, v). key \<notin> set UNSUPPORTED_FIELDS) fs))"
proof -
  have "''__proto__'' \<notin> set (keys (map (\<lambda>(key, v). (key, clean_field key v))
             (filter (\<lambda>(key, v). key \<notin> set UNSUPPORTED_FIELDS) fs)))"
    using plain_keys [OF assms] keys_filter_subset [of "\<lambda>(key, v). key \<notin> set UNSUPPORTED_FIELDS" fs]
    by (auto simp: keys_map_field)
  moreover have "sorted (map (\<lambda>(k, v). key_rank k) (map (\<lambda>(key, v). (key, clean_field key v))
             (filter (\<lambda>(key, v). key \<notin> set UNSUPPORTED_FIELDS) fs)))"
    using plain_sorted [OF assms] by (simp only: rank_map_field sorted_filter)
  ultimately have "object_of (map (\<lambda>(key, v). (key, clean_field key v))
             (filter (\<lambda>(key, v). key \<notin> set UNSUPPORTED_FIELDS) fs)) =
     JObj (map (\<lambda>(key, v). (key, clean_field key v))
             (filter (\<lambda>(key, v). key \<notin> set UNSUPPORTED_FIELDS) fs))"
    by (rule object_of_plain)
  then show ?thesis
    by (simp only: clean_obj)
qed

lemma clean_properties_obj_plain:
  assumes "plain (JObj ps)"
  shows "clean_properties (JObj ps) = JObj (map (\<lambda>(propKey, pv). (propKey, cleanSchemaForGemini pv)) ps)"
proof -
  have "''__proto__'' \<notin> set (keys (map (\<lambda>(propKey, pv). (propKey, cleanSchemaForGemini pv)) ps))"
    using plain_keys [OF assms] by (simp add: keys_map_value)
  moreover have "sorted (map (\<lambda>(k, v). key_rank k)
      (map (\<lambda>(propKey, pv). (propKey, cleanSchemaForGemini pv)) ps))"
    using plain_sorted [OF assms] by (simp only: rank_map_value)
  ultimately have "object_of (map (\<lambda>(propKey, pv). (propKey, cleanSchemaForGemini pv)) ps) =
      JObj (map (\<lambda>(propKey, pv). (propKey, cleanSchemaForGemini pv)) ps)"
    by (rule object_of_plain)
  then show ?thesis by simp
qed

lemma clean_properties_arr:
  "clean_properties (JArr xs) = JObj (zip (index_keys (length xs)) (map cleanSchemaForGemini xs))"
proof -
  have "''__proto__'' \<notin> set (keys (zip (index_keys (length xs)) (map cleanSchemaForGemini xs)))"
    using index_keys_not_proto [of "length xs"] by (simp add: keys_zip index_keys_def)
  moreover have "sorted (map (\<lambda>(k, v). key_rank k)
      (zip (index_keys (length xs)) (map cleanSchemaForGemini xs)))"
    using sorted_index_keys [of "length xs"] by (simp add: rank_zip index_keys_def)
  ultimately show ?thesis
    by (simp add: zip_map_snd object_of_plain)
qed

lemma typeof_clean_plain: "plain v \<Longrightarrow> typeof (cleanSchemaForGemini v) = typeof v"
  by (cases v) (simp_all add: clean_obj_plain del: cleanSchemaForGemini.simps(2))

lemma typeof_object_of [simp]: "typeof (object_of es) = ''object''"
  by (simp add: object_of_def Let_def split: option.splits)

lemma typeof_clean_properties [simp]: "typeof (clean_properties v) = ''object''"
  by simp

lemma plain_zip:
  assumes "''__proto__'' \<notin> set ks" and "\<forall>y \<in> set ys. plain y"
    and "sorted (map key_rank ks)" and "length ks = length ys"
  shows "plain (JObj (zip ks ys))"
  using assms by (auto dest: set_zip_leftD set_zip_rightD simp: rank_zip)

lemma clean_plain_both:
  "plain v \<Longrightarrow>
     plain (cleanSchemaForGemini v) \<and>
     cleanSchemaForGemini (cleanSchemaForGemini v) = cleanSchemaForGemini v \<and>
     plain (clean_properties v) \<and>
     clean_properties (clean_properties v) = clean_properties v"
proof (induction v)
  case (JArr xs)
  then have ih: "\<forall>x \<in> set xs. plain (cleanSchemaForGemini x) \<and>
      cleanSchemaForGemini (cleanSchemaForGemini x) = cleanSchemaForGemini x"
    by simp
  then have eq: "map (cleanSchemaForGemini \<circ> cleanSchemaForGemini) xs = map cleanSchemaForGemini xs"
    by simp
  have pz: "plain (JObj (zip (index_keys (length xs)) (map cleanSchemaForGemini xs)))"
    using ih by (intro plain_zip index_keys_not_proto sorted_index_keys) (simp_all add: index_keys_def)
  have "clean_properties (JObj (zip (index_keys (length xs)) (map cleanSchemaForGemini xs))) =
        JObj (zip (index_keys (length xs)) (map cleanSchemaForGemini xs))"
    by (simp only: clean_properties_obj_plain [OF pz] zip_map_snd map_map eq)
  with pz ih eq show ?case
    by (simp add: clean_properties_arr del: clean_properties.simps)
next
  case (JObj fs)
  let ?P = "\<lambda>(key, v). key \<notin> set UNSUPPORTED_FIELDS"
  let ?g = "\<lambda>(key, v). (key, clean_field key v)"
  let ?c = "\<lambda>(propKey, pv). (propKey, cleanSchemaForGemini pv)"
  have el: "k \<noteq> ''__proto__'' \<and> plain (cleanSchemaForGemini v) \<and>
      cleanSchemaForGemini (cleanSchemaForGemini v) = cleanSchemaForGemini v \<and>
      plain (clean_properties v) \<and> clean_properties (clean_properties v) = clean_properties v \<and>
      plain v"
    if "(k, v) \<in> set fs" for k v
    using JObj.IH [of "(k, v)" v] JObj.prems that by auto
  have field_plain: "plain (clean_field k v)" if "(k, v) \<in> set fs" for k v
    using el [OF that] by (simp add: clean_field_def)
  have field_idem: "clean_field k (clean_field k v) = clean_field k v" if "(k, v) \<in> set fs" for k v
    using el [OF that] by (simp add: clean_field_def typeof_clean_plain)
  have so: "sorted (map (\<lambda>(k, v). key_rank k) fs)"
    using JObj.prems by simp
  have "sorted (map (\<lambda>(k, v). key_rank k) (map ?g (filter ?P fs)))"
    using so by (simp only: rank_map_field sorted_filter)
  then have p1: "plain (JObj (map ?g (filter ?P fs)))"
    using el field_plain by auto
  have "sorted (map (\<lambda>(k, v). key_rank k) (map ?c fs))"
    using so by (simp only: rank_map_value)
  then have p2: "plain (JObj (map ?c fs))"
    using el by auto
  have i1: "map ?g (filter ?P (map ?g (filter ?P fs))) = map ?g (filter ?P fs)"
    using field_idem by (induction fs) auto
  have i2: "map ?c (map ?c fs) = map ?c fs"
    using el by (induction fs) auto
  have c1: "cleanSchemaForGemini (JObj fs) = JObj (map ?g (filter ?P fs))"
    by (rule clean_obj_plain [OF JObj.prems])
  have c2: "clean_properties (JObj fs) = JObj (map ?c fs)"
    by (rule clean_properties_obj_plain [OF JObj.prems])
  show ?case
    unfolding c1 c2 using p1 p2
    by (simp only: clean_obj_plain [OF p1] clean_properties_obj_plain [OF p2] i1 i2 simp_thms)
qed (simp_all add: object_of_def own_property_order_def)

lemma cleanSchemaForGemini_idempotent_plain:
  "plain s \<Longrightarrow> cleanSchemaForGemini (cleanSchemaForGemini s) = cleanSchemaForGemini s"
  by (simp add: clean_plain_both)

section \<open>\<open>transformOpenAIToClaude\<close> reports no dropped parameter\<close>

lemma has_key_flatten_system:
  "flatten_system req = Inr req1 \<Longrightarrow> k \<noteq> ''system'' \<Longrightarrow> has_key req1 k = has_key req k"
  by (auto simp: flatten_system_def split: json.splits sum.splits)

lemma has_key_wrap_messages: "k \<noteq> ''messages'' \<Longrightarrow> has_key (wrap_messages req) k = has_key req k"
  by (auto simp: wrap_messages_def Let_def)

lemma has_key_clean_tools: "k \<noteq> ''tools'' \<Longrightarrow> has_key (clean_tools req) k = has_key req k"
  by (auto simp: clean_tools_def Let_def split: json.splits)

lemma keys_clone: "keys (entries (json_clone (JObj p))) = keys (filter (\<lambda>(k, v). v \<noteq> JUndefined) p)"
  by (induction p) (auto simp: keys_def)

lemma flatten_system_no_system:
  "\<not> has_key req ''system'' \<Longrightarrow> flatten_system req = Inr req"
proof -
  assume "\<not> has_key req ''system''"
  then have "map_of req ''system'' = None"
    by (simp add: has_key_def keys_def map_of_eq_None_iff)
  then show ?thesis by (simp add: flatten_system_def get_def)
qed

text \<open>
  C10. Whenever \<open>transformOpenAIToClaude\<close> returns, its \<open>droppedParams\<close> is empty, and
  a key of the drop list is a key of the returned request exactly when the payload had it
  (with a value that survives the JSON copy): the drop logic of the sanitizer is not run.
  The function returns for every payload without a \<open>system\<close> field.
\<close>

theorem transformOpenAIToClaude_droppedParams:
  "(\<forall>r. transformOpenAIToClaude p = Inr r \<longrightarrow>
      droppedParams r = [] \<and>
      (\<forall>k \<in> set DROP_KEYS.
         has_key (claudeRequest r) k = has_key (filter (\<lambda>(k, v). v \<noteq> JUndefined) p) k)) \<and>
   (\<not> has_key p ''system'' \<longrightarrow> (\<exists>r. transformOpenAIToClaude p = Inr r))"
proof (intro conjI allI impI ballI)
  fix r
  assume r: "transformOpenAIToClaude p = Inr r"
  then show "droppedParams r = []"
    by (auto simp: transformOpenAIToClaude_def Let_def split: sum.splits)
  fix k
  assume k: "k \<in> set DROP_KEYS"
  from r obtain req1 where f: "flatten_system (entries (json_clone (JObj p))) = Inr req1"
    and c: "claudeRequest r = clean_tools (wrap_messages req1)"
    by (auto simp: transformOpenAIToClaude_def Let_def split: sum.splits)
  have "has_key (claudeRequest r) k = has_key (entries (json_clone (JObj p))) k"
    using DROP_KEYS_others [OF k] has_key_flatten_system [OF f, of k]
    by (simp add: c has_key_clean_tools has_key_wrap_messages)
  then show "has_key (claudeRequest r) k = has_key (filter (\<lambda>(k, v). v \<noteq> JUndefined) p) k"
    by (simp only: has_key_def keys_clone)
next
  assume "\<not> has_key p ''system''"
  moreover have "has_key (entries (json_clone (JObj p))) ''system'' =
      has_key (filter (\<lambda>(k, v). v \<noteq> JUndefined) p) ''system''"
    by (simp only: has_key_def keys_clone)
  moreover have "has_key (filter (\<lambda>(k, v). v \<noteq> JUndefined) p) ''system'' \<Longrightarrow> has_key p ''system''"
    by (auto simp: has_key_def keys_def)
  ultimately have "\<not> has_key (entries (json_clone (JObj p))) ''system''"
    by blast
  then show "\<exists>r. transformOpenAIToClaude p = Inr r"
    by (simp add: transformOpenAIToClaude_def Let_def flatten_system_no_system)
qed

theorem transformOpenAIToClaude_droppedParams_witness:
  "(\<exists>r. transformOpenAIToClaude openai_payload = Inr r \<and> droppedParams r = [] \<and>
        has_key (claudeRequest r) ''n'' \<and> has_key (claudeRequest r) ''seed'') \<and>
   has_key openai_payload ''n'' \<and> ''n'' \<in> set DROP_KEYS \<and> \<not> has_key openai_payload ''system''"
proof -
  have ns: "\<not> has_key openai_payload ''system''" and n: "''n'' \<in> set DROP_KEYS" and s: "''seed'' \<in> set DROP_KEYS"
    by (simp_all add: openai_payload_def has_key_def keys_def DROP_KEYS_def)
  have hn: "has_key (filter (\<lambda>(k, v). v \<noteq> JUndefined) openai_payload) ''n''"
    and hs: "has_key (filter (\<lambda>(k, v). v \<noteq> JUndefined) openai_payload) ''seed''"
    and hp: "has_key openai_payload ''n''"
    by (simp_all add: openai_payload_def has_key_def keys_def)
  from transformOpenAIToClaude_droppedParams [of openai_payload] ns
  obtain r where r: "transformOpenAIToClaude openai_payload = Inr r" by blast
  with transformOpenAIToClaude_droppedParams [of openai_payload] n s hn hs
  have "droppedParams r = [] \<and> has_key (claudeRequest r) ''n'' \<and> has_key (claudeRequest r) ''seed''"
    by blast
  with r ns n hp show ?thesis by blast
qed

section \<open>The stream re-emitter\<close>

lemmas stream_defs = start_session_def init_session_def send_def process_chunk_def parts_of_def process_part_def handle_text_def handle_functionCall_def track_usage_def check_finish_def close_text_def finish_stream_def or0_def map_finish_def usage_or_zero_def on_error_def update_tokens_def

lemma isClosed_send [simp]: "isClosed (send ev s) = isClosed s"
  by (simp add: send_def)

lemma outbound_send: "outbound (send ev s) = (if isClosed s then outbound s else outbound s @ [ev])"
  by (simp add: send_def)

lemma isClosed_handle_text [simp]: "isClosed (handle_text p s) = isClosed s"
  by (simp add: handle_text_def Let_def split: option.splits)

lemma isClosed_handle_functionCall [simp]: "isClosed (handle_functionCall e p s) = isClosed s"
  by (simp add: handle_functionCall_def Let_def split: option.splits)

lemma isClosed_process_part [simp]: "isClosed (process_part e p s) = isClosed s"
  by (simp add: process_part_def)

lemma isClosed_fold_parts [simp]: "isClosed (fold (process_part e) ps s) = isClosed s"
  by (induction ps arbitrary: s) simp_all

lemma isClosed_track_usage [simp]: "isClosed (track_usage c s) = isClosed s"
  by (simp add: track_usage_def split: option.splits)

lemma isClosed_close_text [simp]: "isClosed (close_text s) = isClosed s"
  by (simp add: close_text_def)

lemma isClosed_check_finish [simp]: "isClosed (check_finish cand s) = isClosed s"
  by (simp add: check_finish_def Let_def split: option.splits)

lemma isClosed_process_chunk [simp]: "isClosed (process_chunk e c s) = isClosed s"
  by (simp add: process_chunk_def split: list.splits)

lemma isClosed_process_line [simp]: "isClosed (process_line e l s) = isClosed s"
  by (cases l) simp_all

lemma isClosed_fold_lines [simp]: "isClosed (fold (process_line e) ls s) = isClosed s"
  by (induction ls arbitrary: s) simp_all

lemma isClosed_start_session [simp]: "\<not> isClosed (start_session h e)"
  by (simp add: start_session_def init_session_def)

lemma last_finish_stream: "\<not> isClosed s \<Longrightarrow> last (outbound (finish_stream s)) = MessageStop"
  by (simp add: finish_stream_def Let_def outbound_send)

lemma last_on_error: "\<not> isClosed s \<Longrightarrow> last (outbound (on_error m s)) = ErrorEvent m"
  by (simp add: on_error_def outbound_send)

text \<open>
  C5. For the two frames of the example (text \<open>Hi\<close>; then text \<open> there\<close> with finish reason
  \<open>STOP\<close> and usage 10 and 2) the events sent are exactly \<open>message_start\<close>, the start of text
  block 0, the two text deltas, the stop of block 0, \<open>message_delta\<close> with \<open>end_turn\<close> and
  usage 10 and 2, and \<open>message_stop\<close>.
\<close>

theorem two_frame_example: "outbound (snd (handleStreamingResponse h e (Body [Data frame1, Data frame2] Done))) = 
  [MessageStart (msgId e) (targetModel h) 100 1, ContentBlockStart 0 (TextBlock []),
  ContentBlockDelta 0 (TextDelta ''Hi''),
  ContentBlockDelta 0 (TextDelta '' there''), ContentBlockStop 0,
  MessageDelta (Some ''end_turn'') (FullUsage (Usage 10 2)), MessageStop]"
  by (simp add: frame1_def frame2_def stream_defs)

lemma unstopped_handle_text: "unstopped s \<Longrightarrow> unstopped (handle_text p s)"
  by (auto simp: unstopped_def handle_text_def Let_def send_def split: option.splits)

lemma unstopped_handle_functionCall: "unstopped s \<Longrightarrow> unstopped (handle_functionCall e p s)"
  by (auto simp: unstopped_def handle_functionCall_def Let_def send_def split: option.splits)

lemma unstopped_fold_parts: "unstopped s \<Longrightarrow> unstopped (fold (process_part e) ps s)"
  by (induction ps arbitrary: s)
     (simp_all add: process_part_def unstopped_handle_text unstopped_handle_functionCall)

lemma unstopped_rest_of_chunk: "unstopped s \<Longrightarrow> unstopped (check_finish cand (track_usage c s))"
  by (auto simp: unstopped_def check_finish_def track_usage_def close_text_def Let_def send_def
           split: option.splits)

lemma unstopped_process_line: "unstopped s \<Longrightarrow> unstopped (process_line e l s)"
  by (cases l)
     (auto simp: process_chunk_def unstopped_rest_of_chunk unstopped_fold_parts split: list.splits)

lemma unstopped_fold_lines: "unstopped s \<Longrightarrow> unstopped (fold (process_line e) ls s)"
  by (induction ls arbitrary: s) (simp_all add: unstopped_process_line)

lemma unstopped_start_session: "unstopped (start_session h e)"
  by (simp add: unstopped_def start_session_def init_session_def send_def)

lemma unstopped_on_error: "unstopped s \<Longrightarrow> unstopped (on_error m s)"
  by (simp add: unstopped_def on_error_def send_def)

text \<open>
  C1, as amended. When the read loop ends without an exception, whether or not a frame
  had a finish reason, the last event sent is \<open>message_stop\<close>. When an exception is raised
  (no body, or a read that fails) the last event is the \<open>error\<close> event, and no
  \<open>message_stop\<close> is sent at all.
\<close>

theorem last_event_of_session:
  "last (outbound (snd (handleStreamingResponse h e (Body ls Done)))) = MessageStop \<and>
   last (outbound (snd (handleStreamingResponse h e (Body ls (ReadError m))))) = ErrorEvent m \<and>
   MessageStop \<notin> set (outbound (snd (handleStreamingResponse h e (Body ls (ReadError m))))) \<and>
   last (outbound (snd (handleStreamingResponse h e NoBody))) = ErrorEvent ''Error: No response body'' \<and>
   MessageStop \<notin> set (outbound (snd (handleStreamingResponse h e NoBody)))"
  using unstopped_on_error [OF unstopped_fold_lines [OF unstopped_start_session], of m e ls h]
        unstopped_on_error [OF unstopped_start_session, of "''Error: No response body''" h e]
  by (simp add: Let_def last_finish_stream last_on_error unstopped_def)

text \<open>
  C1 as stated fails: a read that fails after a text frame ends the stream with the
  \<open>error\<close> event.
\<close>

theorem last_event_counterexample:
  "outbound (snd (handleStreamingResponse example_handler example_env
      (Body [Data frame1] (ReadError ''TypeError: terminated'')))) =
     [MessageStart ''msg_1'' ''gemini-2.5-flash'' 100 1, ContentBlockStart 0 (TextBlock []),
      ContentBlockDelta 0 (TextDelta ''Hi''), ErrorEvent ''TypeError: terminated''] \<and>
   last (outbound (snd (handleStreamingResponse example_handler example_env
      (Body [Data frame1] (ReadError ''TypeError: terminated''))))) \<noteq> MessageStop"
  by (simp add: frame1_def example_handler_def example_env_def stream_defs)

subsection \<open>Token counters\<close>

lemma send_fields [simp]:
  "usage (send ev s) = usage s" "finalized (send ev s) = finalized s"
  "textStarted (send ev s) = textStarted s" "textIdx (send ev s) = textIdx s"
  "curIdx (send ev s) = curIdx s"
  by (simp_all add: send_def)

lemma handle_text_fields [simp]:
  "usage (handle_text p s) = usage s" "finalized (handle_text p s) = finalized s"
  by (simp_all add: handle_text_def Let_def split: option.splits)

lemma handle_functionCall_fields [simp]:
  "usage (handle_functionCall e p s) = usage s" "finalized (handle_functionCall e p s) = finalized s"
  "textStarted (handle_functionCall e p s) = textStarted s" "textIdx (handle_functionCall e p s) = textIdx s"
  by (simp_all add: handle_functionCall_def Let_def split: option.splits)

lemma fold_parts_fields [simp]:
  "usage (fold (process_part e) ps s) = usage s" "finalized (fold (process_part e) ps s) = finalized s"
  by (induction ps arbitrary: s) (simp_all add: process_part_def)

lemma check_finish_usage [simp]: "usage (check_finish cand s) = usage s"
  by (simp add: check_finish_def Let_def close_text_def split: option.splits)

lemma finish_stream_usage [simp]: "usage (finish_stream s) = usage s"
  by (simp add: finish_stream_def Let_def close_text_def)

lemma usage_process_line:
  "usage (process_line e l s) = (if frame_usage l = [] then usage s else Some (last (frame_usage l)))"
  by (cases l) (auto simp: frame_usage_def process_chunk_def track_usage_def split: list.splits option.splits)

lemma usage_fold_lines:
  "usage (fold (process_line e) ls s) =
     (if usage_frames ls = [] then usage s else Some (last (usage_frames ls)))"
proof (induction ls arbitrary: s)
  case Nil
  show ?case by (simp add: usage_frames_def)
next
  case (Cons l ls)
  show ?case
    by (simp add: Cons.IH usage_process_line) (auto simp: usage_frames_def)
qed

lemma usage_start_session [simp]: "usage (start_session h e) = None"
  by (simp add: start_session_def init_session_def)

text \<open>
  C3, as amended. After a stream that ends without an exception, when some frame with a
  first candidate carried usage metadata, the input-token counter is the prompt token
  count of the latest such frame and the output-token counter has grown by the candidates
  token count of that latest frame alone (an absent count is 0); the counts of earlier
  frames are overwritten, not summed. When no such frame came, or the read loop raised an
  exception, the counters are unchanged.
\<close>

theorem session_counters:
  "fst (handleStreamingResponse h e (Body ls Done)) =
     (if usage_frames ls = [] then h
      else h\<lparr>sessionInputTokens := input_tokens (last (usage_frames ls)),
              sessionOutputTokens := sessionOutputTokens h + output_tokens (last (usage_frames ls))\<rparr>) \<and>
   fst (handleStreamingResponse h e (Body ls (ReadError m))) = h \<and>
   fst (handleStreamingResponse h e NoBody) = h"
  by (simp add: Let_def usage_fold_lines update_tokens_def)

text \<open>
  C3 as stated fails: after two frames with candidates token counts 2 and 5 the
  output-token counter has grown by 5, not by 7.
\<close>

theorem session_counters_counterexample:
  "sessionOutputTokens (fst (handleStreamingResponse example_handler example_env
      (Body [Data (usage_frame 10 2), Data (usage_frame 10 5)] Done))) = sessionOutputTokens example_handler + 5 \<and>
   sessionOutputTokens (fst (handleStreamingResponse example_handler example_env
      (Body [Data (usage_frame 10 2), Data (usage_frame 10 5)] Done))) \<noteq> sessionOutputTokens example_handler + (2 + 5)"
  by (simp add: usage_frame_def example_handler_def example_env_def stream_defs)

subsection \<open>Block indices\<close>

lemma start_indices_append [simp]: "start_indices (xs @ ys) = start_indices xs @ start_indices ys"
  by (simp add: start_indices_def)

lemma start_indices_Nil [simp]: "start_indices [] = []"
  by (simp add: start_indices_def)

lemma start_indices_Cons [simp]: "start_indices (ev # es) = start_index ev @ start_indices es"
  by (simp add: start_indices_def)

lemma upt_next: "0 \<le> c \<Longrightarrow> map int [0..<nat (c + 1)] = map int [0..<nat c] @ [c]"
  by (simp add: nat_add_distrib)

lemma indexed_handle_text: "indexed s \<Longrightarrow> indexed (handle_text p s)"
  by (auto simp: indexed_def handle_text_def Let_def send_def upt_next split: option.splits)

lemma indexed_handle_functionCall: "indexed s \<Longrightarrow> indexed (handle_functionCall e p s)"
  by (auto simp: indexed_def handle_functionCall_def Let_def send_def upt_next split: option.splits)

lemma indexed_fold_parts: "indexed s \<Longrightarrow> indexed (fold (process_part e) ps s)"
  by (induction ps arbitrary: s) (simp_all add: process_part_def indexed_handle_text indexed_handle_functionCall)

lemma indexed_track_usage: "indexed s \<Longrightarrow> indexed (track_usage c s)"
  by (auto simp: indexed_def track_usage_def split: option.splits)

lemma indexed_check_finish: "indexed s \<Longrightarrow> indexed (check_finish cand s)"
  by (auto simp: indexed_def check_finish_def close_text_def Let_def send_def split: option.splits)

lemma indexed_process_line: "indexed s \<Longrightarrow> indexed (process_line e l s)"
  by (cases l)
     (auto simp: process_chunk_def indexed_check_finish indexed_track_usage indexed_fold_parts
           split: list.splits)

lemma indexed_fold_lines: "indexed s \<Longrightarrow> indexed (fold (process_line e) ls s)"
  by (induction ls arbitrary: s) (simp_all add: indexed_process_line)

lemma indexed_start_session: "indexed (start_session h e)"
  by (simp add: indexed_def start_session_def init_session_def send_def)

lemma start_indices_finish_stream: "start_indices (outbound (finish_stream s)) = start_indices (outbound s)"
  by (simp add: finish_stream_def close_text_def Let_def send_def)

lemma start_indices_on_error: "start_indices (outbound (on_error m s)) = start_indices (outbound s)"
  by (simp add: on_error_def send_def)

lemma indexed_count: "indexed s \<Longrightarrow> start_indices (outbound s) = map int [0..<length (start_indices (outbound s))]"
  by (simp add: indexed_def)

text \<open>
  C4. In every stream session, whatever the frames hold and however the stream ends, the
  indices of the content blocks started are \<open>0, 1, \<dots>, n - 1\<close> in this order: strictly
  increasing from 0, none used for two blocks.
\<close>

theorem block_indices:
  "start_indices (outbound (snd (handleStreamingResponse h e up))) =
     map int [0..<length (start_indices (outbound (snd (handleStreamingResponse h e up))))] \<and>
   sorted_wrt (<) (start_indices (outbound (snd (handleStreamingResponse h e up)))) \<and>
   distinct (start_indices (outbound (snd (handleStreamingResponse h e up))))"
proof -
  have a: "start_indices (outbound (snd (handleStreamingResponse h e up))) =
     map int [0..<length (start_indices (outbound (snd (handleStreamingResponse h e up))))]"
  proof (cases up)
    case NoBody
    then show ?thesis
      using indexed_count [OF indexed_start_session, of h e]
      by (simp add: start_indices_on_error)
  next
    case (Body ls en)
    have ix: "indexed (fold (process_line e) ls (start_session h e))"
      by (rule indexed_fold_lines [OF indexed_start_session])
    show ?thesis
      using indexed_count [OF ix] Body
      by (cases en) (simp_all add: Let_def start_indices_on_error start_indices_finish_stream)
  qed
  have b: "sorted_wrt (<) (map int [0..<n])" and c: "distinct (map int [0..<n])" for n
    by (simp_all add: sorted_wrt_map distinct_map inj_on_def)
  show ?thesis
    using a b c by metis
qed

subsection \<open>The events of one frame\<close>

lemma growsI: "outbound s' = outbound s @ es \<Longrightarrow> grows s s' \<and> emitted_by s s' = es"
  by (simp add: grows_def emitted_by_def)

lemma grows_refl [simp]: "grows s s" "emitted_by s s = []"
  by (simp_all add: grows_def emitted_by_def)

lemma grows_trans:
  "grows s s' \<Longrightarrow> grows s' s'' \<Longrightarrow> grows s s'' \<and> emitted_by s s'' = emitted_by s s' @ emitted_by s' s''"
  by (metis append.assoc growsI grows_def)

lemma grows_send: "grows s (send ev s)" "emitted_by s (send ev s) = (if isClosed s then [] else [ev])"
  by (simp_all add: grows_def emitted_by_def send_def)

lemma handle_text_grows:
  "grows s (handle_text p s)"
  "emitted_by s (handle_text p s) =
     (case part_text p of
        None \<Rightarrow> []
      | Some t \<Rightarrow>
          if t = [] \<or> isClosed s then []
          else if textStarted s then [ContentBlockDelta (textIdx s) (TextDelta t)]
          else [ContentBlockStart (curIdx s) (TextBlock []), ContentBlockDelta (curIdx s) (TextDelta t)])"
  by (auto simp: grows_def emitted_by_def handle_text_def Let_def send_def split: option.splits)

lemma handle_functionCall_grows:
  "grows s (handle_functionCall e p s)"
  "emitted_by s (handle_functionCall e p s) =
     (case functionCall p of
        None \<Rightarrow> []
      | Some fc \<Rightarrow>
          if isClosed s then []
          else [ContentBlockStart (curIdx s) (ToolUseBlock (toolId e (curIdx s)) (name fc)),
                ContentBlockDelta (curIdx s) (InputJsonDelta (JSON_stringify (args fc))),
                ContentBlockStop (curIdx s)])"
  by (auto simp: grows_def emitted_by_def handle_functionCall_def Let_def send_def split: option.splits)

lemma process_part_grows:
  "grows s (process_part e p s)"
  "emitted_by s (process_part e p s) =
     emitted_by s (handle_text p s) @ emitted_by (handle_text p s) (handle_functionCall e p (handle_text p s))"
  using grows_trans [OF handle_text_grows(1) [of s p] handle_functionCall_grows(1) [of "handle_text p s" e p]]
  by (simp_all add: process_part_def)

lemma fold_parts_grows: "grows s (fold (process_part e) ps s)"
proof (induction ps arbitrary: s)
  case Nil
  show ?case by simp
next
  case (Cons p ps)
  show ?case
    using grows_trans [OF process_part_grows(1) [of s e p] Cons.IH [of "process_part e p s"]] by simp
qed

lemma emitted_fold_parts_Cons:
  "emitted_by s (fold (process_part e) (p # ps) s) =
     emitted_by s (process_part e p s) @ emitted_by (process_part e p s) (fold (process_part e) ps (process_part e p s))"
  using grows_trans [OF process_part_grows(1) [of s e p] fold_parts_grows [of "process_part e p s" e ps]] by simp

lemma track_usage_grows: "grows s (track_usage c s)" "emitted_by s (track_usage c s) = []"
  by (simp_all add: grows_def emitted_by_def track_usage_def split: option.splits)

lemma check_finish_grows: "grows s (check_finish cand s)"
  by (auto simp: grows_def emitted_by_def check_finish_def close_text_def Let_def send_def split: option.splits)

lemma check_finish_finalized: "finalized s \<Longrightarrow> check_finish cand s = s"
  by (simp add: check_finish_def split: option.splits)

lemma process_chunk_grows: "grows s (process_chunk e c s)"
proof (cases "candidates c")
  case Nil
  then show ?thesis by (simp add: process_chunk_def)
next
  case (Cons cand cs)
  have "grows s (track_usage c (fold (process_part e) (parts_of cand) s))"
    using grows_trans [OF fold_parts_grows track_usage_grows(1)] by blast
  then show ?thesis
    using grows_trans [OF _ check_finish_grows] Cons by (simp add: process_chunk_def)
qed

subsection \<open>Frames after finalization\<close>

lemma late_ok_Nil [simp]: "late_ok []"
  by (simp add: late_ok_def)

lemma late_ok_append: "late_ok a \<Longrightarrow> late_ok b \<Longrightarrow> late_ok (a @ b)"
  by (fastforce simp: late_ok_def)

lemma late_ok_handle_text: "late_ok (emitted_by s (handle_text p s))"
  by (auto simp: handle_text_grows(2) late_ok_def split: option.splits)

lemma late_ok_handle_functionCall: "late_ok (emitted_by s (handle_functionCall e p s))"
  by (auto simp: handle_functionCall_grows(2) late_ok_def split: option.splits)

lemma late_ok_process_part: "late_ok (emitted_by s (process_part e p s))"
  by (simp add: process_part_grows(2) late_ok_append late_ok_handle_text late_ok_handle_functionCall)

lemma late_ok_fold_parts: "late_ok (emitted_by s (fold (process_part e) ps s))"
proof (induction ps arbitrary: s)
  case Nil
  show ?case by simp
next
  case (Cons p ps)
  show ?case
    using late_ok_append [OF late_ok_process_part [of s e p] Cons.IH [of "process_part e p s"]]
    by (simp only: emitted_fold_parts_Cons)
qed

lemma late_chunk:
  assumes "finalized s"
  shows "late_ok (emitted_by s (process_chunk e c s))" and "finalized (process_chunk e c s)"
proof -
  show "late_ok (emitted_by s (process_chunk e c s))"
  proof (cases "candidates c")
    case Nil
    then show ?thesis by (simp add: process_chunk_def)
  next
    case (Cons cand cs)
    have "emitted_by s (track_usage c (fold (process_part e) (parts_of cand) s)) =
          emitted_by s (fold (process_part e) (parts_of cand) s)"
      using grows_trans [OF fold_parts_grows [of s e "parts_of cand"]
               track_usage_grows(1) [of "fold (process_part e) (parts_of cand) s" c]]
      by (simp add: track_usage_grows(2))
    moreover have "finalized (track_usage c (fold (process_part e) (parts_of cand) s))"
      using assms by (simp add: track_usage_def split: option.splits)
    ultimately show ?thesis
      using Cons late_ok_fold_parts [of s e "parts_of cand"]
      by (simp add: process_chunk_def check_finish_finalized)
  qed
  show "finalized (process_chunk e c s)"
    using assms
    by (auto simp: process_chunk_def check_finish_def track_usage_def split: list.splits option.splits)
qed

text \<open>
  C2, as amended. Once \<open>finalized\<close> is set it stays set, and a line processed then sends
  no \<open>message_delta\<close>; every \<open>content_block_stop\<close> it sends closes a \<open>tool_use\<close> block
  that the same line started (a function-call part still sends its start, delta and stop);
  the finish reason of a late frame closes nothing. At the end of such a stream only
  \<open>message_stop\<close> is sent.
\<close>

theorem late_frames:
  assumes "finalized s"
  shows "finalized (process_line e l s) \<and>
         outbound (process_line e l s) = outbound s @ emitted_by s (process_line e l s) \<and>
         (\<forall>ev \<in> set (emitted_by s (process_line e l s)). \<not> is_message_delta ev) \<and>
         (\<forall>i. ContentBlockStop i \<in> set (emitted_by s (process_line e l s)) \<longrightarrow>
              (\<exists>tid nm. ContentBlockStart i (ToolUseBlock tid nm) \<in> set (emitted_by s (process_line e l s)))) \<and>
         emitted_by s (finish_stream s) = (if isClosed s then [] else [MessageStop])"
proof -
  have "late_ok (emitted_by s (process_line e l s))" and "finalized (process_line e l s)"
    using late_chunk [OF assms] assms by (cases l; simp)+
  moreover have "grows s (process_line e l s)"
    by (cases l) (simp_all add: process_chunk_grows)
  moreover have "emitted_by s (finish_stream s) = (if isClosed s then [] else [MessageStop])"
    using assms by (simp add: finish_stream_def Let_def grows_send(2))
  ultimately show ?thesis
    unfolding late_ok_def grows_def by blast
qed

theorem late_frames_witness:
  "finalized finalized_session \<and>
   finalized (process_line example_env (Data frame2) finalized_session) \<and>
   emitted_by finalized_session (process_line example_env (Data frame2) finalized_session) =
     [ContentBlockDelta 0 (TextDelta '' there'')] \<and>
   emitted_by finalized_session (finish_stream finalized_session) = [MessageStop]"
proof -
  have f: "finalized finalized_session" and c: "\<not> isClosed finalized_session"
    by code_simp+
  have e: "emitted_by finalized_session (process_line example_env (Data frame2) finalized_session) =
     [ContentBlockDelta 0 (TextDelta '' there'')]"
    by code_simp
  from late_frames [OF f, of example_env "Data frame2"] c e f show ?thesis
    by simp
qed

text \<open>
  C2 as stated fails: after the two frames of the example, a frame with a function-call
  part sends a \<open>content_block_stop\<close>.
\<close>

theorem late_frames_counterexample:
  \<open>finalized finalized_session \<and>
   emitted_by finalized_session (process_line example_env (Data call_frame) finalized_session) =
     [ContentBlockStart 1 (ToolUseBlock ''toolu_1'' ''f''),
      ContentBlockDelta 1 (InputJsonDelta (Some ''{"a":1}'')),
      ContentBlockStop 1]\<close>
  by code_simp

subsection \<open>Function-call parts\<close>

lemma off_index_simps [simp]: "off_index i []" "off_index i (a @ b) = (off_index i a \<and> off_index i b)"
  by (auto simp: off_index_def)

lemma text_ok_handle_text: "text_ok s \<Longrightarrow> text_ok (handle_text p s)"
  by (auto simp: text_ok_def handle_text_def Let_def send_def split: option.splits)

lemma text_ok_handle_functionCall: "text_ok s \<Longrightarrow> text_ok (handle_functionCall e p s)"
  by (auto simp: text_ok_def handle_functionCall_def Let_def send_def split: option.splits)

lemma text_ok_fold_parts: "text_ok s \<Longrightarrow> text_ok (fold (process_part e) ps s)"
  by (induction ps arbitrary: s) (simp_all add: process_part_def text_ok_handle_text text_ok_handle_functionCall)

lemma text_ok_process_line: "text_ok s \<Longrightarrow> text_ok (process_line e l s)"
proof (cases l)
  case (Data c)
  assume "text_ok s"
  then have "text_ok (fold (process_part e) ps s)" for ps
    by (rule text_ok_fold_parts)
  then show ?thesis
    using Data \<open>text_ok s\<close>
    by (auto simp: process_chunk_def text_ok_def track_usage_def check_finish_def close_text_def Let_def send_def
             split: list.splits option.splits)
qed simp_all

lemma text_ok_fold_lines: "text_ok s \<Longrightarrow> text_ok (fold (process_line e) ls s)"
  by (induction ls arbitrary: s) (simp_all add: text_ok_process_line)

lemma text_ok_start_session: "text_ok (start_session h e)"
  by (simp add: text_ok_def start_session_def init_session_def send_def)

lemma past_index_handle_text:
  assumes "past_index i s"
  shows "past_index i (handle_text p s) \<and> off_index i (emitted_by s (handle_text p s))"
proof
  show "past_index i (handle_text p s)"
    using assms by (auto simp: past_index_def handle_text_def Let_def send_def split: option.splits)
  show "off_index i (emitted_by s (handle_text p s))"
    using assms by (auto simp: past_index_def off_index_def handle_text_grows(2) split: option.splits)
qed

lemma past_index_handle_functionCall:
  assumes "past_index i s"
  shows "past_index i (handle_functionCall e p s) \<and> off_index i (emitted_by s (handle_functionCall e p s))"
proof
  show "past_index i (handle_functionCall e p s)"
    using assms by (auto simp: past_index_def handle_functionCall_def Let_def send_def split: option.splits)
  show "off_index i (emitted_by s (handle_functionCall e p s))"
    using assms by (auto simp: past_index_def off_index_def handle_functionCall_grows(2) split: option.splits)
qed

lemma past_index_process_part:
  "past_index i s \<Longrightarrow> past_index i (process_part e p s) \<and> off_index i (emitted_by s (process_part e p s))"
  using past_index_handle_text [of i s p] past_index_handle_functionCall [of i "handle_text p s" e p]
  by (simp add: process_part_grows(2)) (simp add: process_part_def)

lemma past_index_fold_parts:
  "past_index i s \<Longrightarrow> past_index i (fold (process_part e) ps s) \<and> off_index i (emitted_by s (fold (process_part e) ps s))"
proof (induction ps arbitrary: s)
  case Nil
  then show ?case by simp
next
  case (Cons p ps)
  from past_index_process_part [OF Cons.prems, of e p] Cons.IH [of "process_part e p s"]
  show ?case by (simp add: emitted_fold_parts_Cons [simplified])
qed

lemma past_index_rest_of_chunk:
  assumes "past_index i s"
  shows "off_index i (emitted_by s (check_finish cand (track_usage c s)))"
  using assms
  by (auto simp: past_index_def off_index_def emitted_by_def check_finish_def track_usage_def close_text_def
        Let_def send_def split: option.splits)

text \<open>
  C6. Let a frame arrive in a session, after any lines \<open>ls\<close>, and let \<open>p\<close> be a part of
  its first candidate that holds a function call with name \<open>nm\<close> and arguments \<open>a\<close>.
  Then, right after what the parts before \<open>p\<close> and the text of \<open>p\<close> have sent, the frame
  sends three events in a row for one index \<open>i\<close>: the start of a \<open>tool_use\<close> block with the
  id drawn and the name \<open>nm\<close>, one \<open>input_json_delta\<close> holding \<open>JSON.stringify\<close> of the
  whole of \<open>a\<close>, and the stop. No block was started with index \<open>i\<close> before, and nothing
  the frame sends afterwards carries index \<open>i\<close>. The witness is the call of the claim,
  name \<open>f\<close> and arguments \<open>{"a":1}\<close>.
\<close>

theorem function_call_part:
  assumes "candidates c = cand # cs"
    and "parts_of cand = ps1 @ p # ps2"
    and "functionCall p = Some \<lparr>name = nm, args = a\<rparr>"
  shows "let s0 = fold (process_line e) ls (start_session h e);
             s1 = handle_text p (fold (process_part e) ps1 s0);
             i = curIdx s1;
             three = [ContentBlockStart i (ToolUseBlock (toolId e i) nm),
                      ContentBlockDelta i (InputJsonDelta (JSON_stringify a)),
                      ContentBlockStop i]
         in i \<notin> set (start_indices (outbound s1)) \<and>
            (\<exists>post. outbound (process_chunk e c s0) = outbound s1 @ three @ post \<and>
                    (\<forall>ev \<in> set post. event_index ev \<noteq> Some i))"
proof -
  define s0 where "s0 = fold (process_line e) ls (start_session h e)"
  define s1 where "s1 = handle_text p (fold (process_part e) ps1 s0)"
  define i where "i = curIdx s1"
  define three where "three = [ContentBlockStart i (ToolUseBlock (toolId e i) nm),
                      ContentBlockDelta i (InputJsonDelta (JSON_stringify a)),
                      ContentBlockStop i]"
  define s2 where "s2 = handle_functionCall e p s1"
  define s3 where "s3 = fold (process_part e) ps2 s2"
  have ix0: "indexed s0" and tk0: "text_ok s0"
    unfolding s0_def
    by (simp_all add: indexed_fold_lines indexed_start_session text_ok_fold_lines text_ok_start_session)
  have ix1: "indexed s1" and tk1: "text_ok s1"
    unfolding s1_def
    by (simp_all add: indexed_handle_text indexed_fold_parts ix0 text_ok_handle_text text_ok_fold_parts tk0)
  have fresh: "i \<notin> set (start_indices (outbound s1))"
    using ix1 by (auto simp: indexed_def i_def)
  have open1: "\<not> isClosed s1"
    using ix1 by (simp add: indexed_def)
  have e2: "emitted_by s1 s2 = three" and g2: "grows s1 s2"
    using assms(3) open1
    by (simp_all add: s2_def three_def i_def handle_functionCall_grows)
  have ab2: "past_index i s2"
    using tk1 assms(3)
    by (auto simp: past_index_def text_ok_def s2_def i_def handle_functionCall_def Let_def send_def)
  have ab3: "past_index i s3" and off3: "off_index i (emitted_by s2 s3)"
    using past_index_fold_parts [OF ab2, of e ps2] by (simp_all add: s3_def)
  have g3: "grows s2 s3"
    by (simp add: s3_def fold_parts_grows)
  have chunk: "process_chunk e c s0 = check_finish cand (track_usage c s3)"
    using assms(1,2) by (simp add: process_chunk_def s3_def s2_def s1_def process_part_def)
  have g4: "grows s3 (check_finish cand (track_usage c s3))"
    using grows_trans [OF track_usage_grows(1) check_finish_grows] by blast
  have off4: "off_index i (emitted_by s3 (check_finish cand (track_usage c s3)))"
    by (rule past_index_rest_of_chunk [OF ab3])
  have "outbound (process_chunk e c s0) =
          outbound s1 @ three @ (emitted_by s2 s3 @ emitted_by s3 (check_finish cand (track_usage c s3)))"
    using g2 g3 g4 e2 by (simp add: chunk grows_def)
  moreover have "off_index i (emitted_by s2 s3 @ emitted_by s3 (check_finish cand (track_usage c s3)))"
    using off3 off4 by simp
  ultimately have "\<exists>post. outbound (process_chunk e c s0) = outbound s1 @ three @ post \<and>
                    (\<forall>ev \<in> set post. event_index ev \<noteq> Some i)"
    unfolding off_index_def by blast
  with fresh show ?thesis
    unfolding Let_def s0_def [symmetric] s1_def [symmetric] i_def [symmetric] three_def [symmetric]
    by blast
qed

theorem function_call_part_witness:
  \<open>candidates call_only_frame = [call_candidate] \<and>
   parts_of call_candidate = [] @ call_part # [] \<and>
   functionCall call_part = Some \<lparr>name = ''f'', args = JObj [(''a'', JNum 1)]\<rparr> \<and>
   (\<exists>post. outbound (process_chunk example_env call_only_frame
              (fold (process_line example_env) [Data frame1] (start_session example_handler example_env))) =
        [MessageStart ''msg_1'' ''gemini-2.5-flash'' 100 1, ContentBlockStart 0 (TextBlock []),
         ContentBlockDelta 0 (TextDelta ''Hi'')] @
        [ContentBlockStart 1 (ToolUseBlock ''toolu_1'' ''f''),
         ContentBlockDelta 1 (InputJsonDelta (Some ''{"a":1}'')),
         ContentBlockStop 1] @ post)\<close>
proof -
  have a1: "candidates call_only_frame = [call_candidate]"
    by (simp add: call_only_frame_def)
  have a2: "parts_of call_candidate = [] @ call_part # []"
    by (simp add: call_candidate_def parts_of_def)
  have a3: "functionCall call_part = Some \<lparr>name = ''f'', args = JObj [(''a'', JNum 1)]\<rparr>"
    by (simp add: call_part_def)
  have o: "outbound (handle_text call_part (fold (process_part example_env) []
             (fold (process_line example_env) [Data frame1] (start_session example_handler example_env)))) =
           [MessageStart ''msg_1'' ''gemini-2.5-flash'' 100 1, ContentBlockStart 0 (TextBlock []),
            ContentBlockDelta 0 (TextDelta ''Hi'')]"
    by code_simp
  have c: "curIdx (handle_text call_part (fold (process_part example_env) []
             (fold (process_line example_env) [Data frame1] (start_session example_handler example_env)))) = 1"
    by code_simp
  have t: "toolId example_env 1 = ''toolu_1''"
    by code_simp
  have j: \<open>JSON_stringify (JObj [(''a'', JNum 1)]) = Some ''{"a":1}''\<close>
    by code_simp
  from function_call_part [OF a1 a2 a3, of example_env "[Data frame1]" example_handler]
  have "\<exists>post. outbound (process_chunk example_env call_only_frame
              (fold (process_line example_env) [Data frame1] (start_session example_handler example_env))) =
        [MessageStart ''msg_1'' ''gemini-2.5-flash'' 100 1, ContentBlockStart 0 (TextBlock []),
         ContentBlockDelta 0 (TextDelta ''Hi'')] @
        [ContentBlockStart 1 (ToolUseBlock ''toolu_1'' ''f''),
         ContentBlockDelta 1 (InputJsonDelta (JSON_stringify (JObj [(''a'', JNum 1)]))),
         ContentBlockStop 1] @ post"
    unfolding Let_def o c t by blast
  then show ?thesis
    unfolding j using a1 a2 a3 by blast
qed

section \<open>The thought signature of a \<open>tool_use\<close> id\<close>

lemma startsWith_take: "startsWith s p = (take (length p) s = p)"
  by (induction s p rule: startsWith.induct) auto

lemma startsWith_append [simp]: "startsWith (p @ r) p"
  by (simp add: startsWith_take)

lemma startsWith_longer:
  "length p \<le> length s \<Longrightarrow> startsWith (s @ r) p = startsWith s p"
  by (simp add: startsWith_take)

lemma includes_str_start: "startsWith s p \<Longrightarrow> includes_str s p"
  by (cases s; cases p) simp_all

lemma includes_str_append: "includes_str (a @ p @ b) p"
proof (induction a)
  case Nil
  show ?case by (simp add: includes_str_start)
next
  case (Cons c a)
  then show ?case by simp
qed

lemma split_from_no_occurrence:
  "sep \<noteq> [] \<Longrightarrow> \<not> includes_str s sep \<Longrightarrow> split_from sep acc s = [rev acc @ s]"
proof (induction s arbitrary: acc)
  case Nil
  then show ?case by (simp add: split_from.simps)
next
  case (Cons c s)
  then show ?case
    by (subst split_from.simps) simp
qed

lemma split_from_first:
  assumes "sep \<noteq> []" and "\<not> includes_str (base @ butlast sep) sep"
  shows "split_from sep acc (base @ sep @ rest) = (rev acc @ base) # split_from sep [] rest"
  using assms(2)
proof (induction base arbitrary: acc)
  case Nil
  show ?case
    using assms(1) by (subst split_from.simps) simp
next
  case (Cons c base)
  have len: "length sep \<le> length ((c # base) @ butlast sep)"
    using assms(1) by simp
  have "butlast sep @ last sep # rest = (butlast sep @ [last sep]) @ rest"
    by simp
  also have "\<dots> = sep @ rest"
    using assms(1) by simp
  finally have eq: "(c # base) @ sep @ rest = ((c # base) @ butlast sep) @ (last sep # rest)"
    by simp
  have "startsWith ((c # base) @ sep @ rest) sep = startsWith ((c # base) @ butlast sep) sep"
    unfolding eq by (rule startsWith_longer [OF len])
  moreover have "\<not> startsWith ((c # base) @ butlast sep) sep" and "\<not> includes_str (base @ butlast sep) sep"
    using Cons.prems by simp_all
  ultimately have ns: "\<not> startsWith (c # base @ sep @ rest) sep"
    by simp
  show ?case
    using assms(1) ns Cons.IH [OF \<open>\<not> includes_str (base @ butlast sep) sep\<close>, of "c # acc"]
    by (subst split_from.simps) simp
qed

lemma split_once:
  assumes "\<not> includes_str (base @ ''__ts'') ''__ts_''" and "\<not> includes_str enc ''__ts_''"
  shows "split (base @ ''__ts_'' @ enc) ''__ts_'' = [base, enc]"
  using split_from_first [of "''__ts_''" base "[]" enc] split_from_no_occurrence [of "''__ts_''" enc "[]"] assms
  by (simp add: split_def)

text \<open>
  An id with one marker. Let the id of a \<open>tool_use\<close> block be \<open>base\<close>, the marker
  \<open>__ts_\<close> and a suffix \<open>enc\<close>, with no other occurrence of the marker: none that begins in
  \<open>base\<close> and none in \<open>enc\<close>. Then the block becomes one part whose \<open>functionCall\<close> holds
  the name and the arguments and nothing else. When \<open>enc\<close> is not empty and decodes, the
  part has beside \<open>functionCall\<close>, at the same level, \<open>thoughtSignature\<close> equal to
  \<open>decodeURIComponent enc\<close>; when \<open>enc\<close> is empty or the decoding throws, the part has
  no \<open>thoughtSignature\<close> and the conversion goes on.
\<close>

lemma tool_use_thought_signature:
  assumes "block_id = base @ ''__ts_'' @ enc"
    and "\<not> includes_str (base @ ''__ts'') ''__ts_''"
    and "\<not> includes_str enc ''__ts_''"
  shows "convert_block (ToolUse block_id block_name block_input) (parts, contents) =
           (parts @
              [JObj ([(''functionCall'', JObj [(''name'', block_name), (''args'', block_input)])] @
                     (if enc = [] then []
                      else case decodeURIComponent enc of
                             Some thoughtSignature \<Rightarrow> [(''thoughtSignature'', JStr thoughtSignature)]
                           | None \<Rightarrow> []))],
            contents)"
proof -
  have "includes_str block_id ''__ts_''"
    unfolding assms(1) by (rule includes_str_append)
  moreover have "split block_id ''__ts_'' = [base, enc]"
    unfolding assms(1) by (rule split_once [OF assms(2,3)])
  moreover have "block_id \<noteq> []"
    using assms(1) by simp
  ultimately show ?thesis
    by (simp add: tool_use_part_def split: option.splits)
qed

lemma tool_use_thought_signature_examples:
  "\<not> includes_str (''toolu_1'' @ ''__ts'') ''__ts_'' \<and> \<not> includes_str ''YWJj'' ''__ts_'' \<and>
   \<not> includes_str ''%zz'' ''__ts_'' \<and>
   decodeURIComponent ''YWJj'' = Some ''YWJj'' \<and> decodeURIComponent ''%zz'' = None \<and>
   convert_block (ToolUse ''toolu_1__ts_YWJj'' (JStr ''f'') (JObj [])) ([], []) =
     ([JObj [(''functionCall'', JObj [(''name'', JStr ''f''), (''args'', JObj [])]),
             (''thoughtSignature'', JStr ''YWJj'')]], []) \<and>
   convert_block (ToolUse ''toolu_1__ts_%zz'' (JStr ''f'') (JObj [])) ([], []) =
     ([JObj [(''functionCall'', JObj [(''name'', JStr ''f''), (''args'', JObj [])])]], []) \<and>
   convert_block (ToolUse ''toolu_1__ts_'' (JStr ''f'') (JObj [])) ([], []) =
     ([JObj [(''functionCall'', JObj [(''name'', JStr ''f''), (''args'', JObj [])])]], [])"
proof -
  have b: "\<not> includes_str (''toolu_1'' @ ''__ts'') ''__ts_''"
    and e1: "\<not> includes_str ''YWJj'' ''__ts_''" and e2: "\<not> includes_str ''%zz'' ''__ts_''"
    and e3: "\<not> includes_str [] ''__ts_''"
    by code_simp+
  have d1: "decodeURIComponent ''YWJj'' = Some ''YWJj''" and d2: "decodeURIComponent ''%zz'' = None"
    by code_simp+
  have i1: "''toolu_1__ts_YWJj'' = ''toolu_1'' @ ''__ts_'' @ ''YWJj''"
    and i2: "''toolu_1__ts_%zz'' = ''toolu_1'' @ ''__ts_'' @ ''%zz''"
    and i3: "''toolu_1__ts_'' = ''toolu_1'' @ ''__ts_'' @ []"
    by simp_all
  from tool_use_thought_signature [OF i1 b e1, of "JStr ''f''" "JObj []" "[]" "[]"]
       tool_use_thought_signature [OF i2 b e2, of "JStr ''f''" "JObj []" "[]" "[]"]
       tool_use_thought_signature [OF i3 b e3, of "JStr ''f''" "JObj []" "[]" "[]"]
       b e1 e2 d1 d2
  show ?thesis by simp
qed

text \<open>
  C7. The signature is not carried whole in the code when the suffix itself holds the
  marker. Of the id \<open>toolu_1__ts_a__ts_b\<close> the suffix is \<open>a__ts_b\<close>, which decodes to
  itself; \<open>transformClaudeToGemini\<close> sends the \<open>thoughtSignature\<close> \<open>a\<close>, the piece
  between the first marker and the second.
\<close>

theorem thought_signature_truncated:
  "transformClaudeToGemini (signed_request ''toolu_1__ts_a__ts_b'') ''gemini-2.5-flash'' =
     JObj [(''contents'',
            JArr [JObj [(''role'', JStr ''model''),
                        (''parts'',
                         JArr [JObj [(''functionCall'', JObj [(''name'', JStr ''f''), (''args'', JObj [(''a'', JNum 1)])]),
                                     (''thoughtSignature'', JStr ''a'')]])]]),
           (''generationConfig'', JObj [])] \<and>
   decodeURIComponent ''a__ts_b'' = Some ''a__ts_b''"
  by code_simp

end
